theory Spec2Isabelle
  imports Main "HOL-Library.AList"
begin

section \<open>Python strings and values\<close>

text \<open>
  Python strings are modelled as \<open>string\<close> (lists of 8-bit characters); the characters
  that cannot be written inside a literal get a name of their own.
\<close>

abbreviation bs :: char where "bs \<equiv> CHR 0x5C"
abbreviation dq :: char where "dq \<equiv> CHR 0x22"
abbreviation sq :: char where "sq \<equiv> CHR 0x27"
abbreviation nl :: char where "nl \<equiv> CHR 0x0A"

text \<open>\<open>s.startswith(p)\<close>, \<open>s.endswith(p)\<close> and the substring test \<open>p in s\<close>.\<close>

definition startswith :: "string \<Rightarrow> string \<Rightarrow> bool" where
  "startswith s p = (take (length p) s = p)"

definition endswith :: "string \<Rightarrow> string \<Rightarrow> bool" where
  "endswith s p = (length p \<le> length s \<and> drop (length s - length p) s = p)"

fun contains :: "string \<Rightarrow> string \<Rightarrow> bool" where
  "contains [] p = (p = [])"
| "contains (c # cs) p = (startswith (c # cs) p \<or> contains cs p)"

text \<open>\<open>sep.join(xs)\<close>.\<close>

fun join :: "string \<Rightarrow> string list \<Rightarrow> string" where
  "join sep [] = []"
| "join sep [x] = x"
| "join sep (x # y # ys) = x @ sep @ join sep (y # ys)"

text \<open>\<open>s.replace(c, r)\<close> for a one-character \<open>c\<close>.\<close>

definition replace_char :: "char \<Rightarrow> string \<Rightarrow> string \<Rightarrow> string" where
  "replace_char c r s = concat (map (\<lambda>x. if x = c then r else [x]) s)"

text \<open>\<open>s.lower()\<close> on the ASCII letters.\<close>

definition lower_char :: "char \<Rightarrow> char" where
  "lower_char c =
     (case map_of (zip ''ABCDEFGHIJKLMNOPQRSTUVWXYZ'' ''abcdefghijklmnopqrstuvwxyz'') c of
        Some l \<Rightarrow> l
      | None \<Rightarrow> c)"

definition lower :: "string \<Rightarrow> string" where
  "lower s = map lower_char s"

text \<open>\<open>str(n)\<close> for an integer: decimal digits, with a minus sign below zero.\<close>

definition digit_char :: "nat \<Rightarrow> char" where
  "digit_char d = ''0123456789'' ! (d mod 10)"

function str_nat :: "nat \<Rightarrow> string" where
  "str_nat n = (if n < 10 then [digit_char n] else str_nat (n div 10) @ [digit_char n])"
  by pat_completeness auto
termination
  by (relation "measure id") auto

declare str_nat.simps [simp del]

definition str_int :: "int \<Rightarrow> string" where
  "str_int i = (if i < 0 then CHR ''-'' # str_nat (nat (- i)) else str_nat (nat i))"

text \<open>The exceptions the two backends raise.\<close>

datatype py_error =
    IgnoreTypedModifierException
  | IgnoreFieldException
  | IgnoreAggregationException
  | MalformedRuleException
  | NotImplementedError
  | TypeError
  | ValueError
  | KeyError

section \<open>The uberAgent backend: rule blocks\<close>

text \<open>\<open>convert_sigma_level_to_uberagent_risk_score\<close>: a dictionary lookup with default 0.\<close>

definition levels :: "(string \<times> int) list" where
  "levels = [(''critical'', 100), (''high'', 75), (''medium'', 50), (''low'', 25)]"

definition convert_sigma_level_to_uberagent_risk_score :: "string \<Rightarrow> int" where
  "convert_sigma_level_to_uberagent_risk_score level =
     (case map_of levels level of Some n \<Rightarrow> n | None \<Rightarrow> 0)"

text \<open>
  \<open>convert_sigma_category_to_uberagent_event_type\<close> looks the category up and, when it is
  unknown, counts it in the global dictionary \<open>gUnsupportedCategories\<close> (an association
  list in insertion order) and returns \<open>None\<close>.
\<close>

definition categories :: "(string \<times> string) list" where
  "categories =
     [(''process_creation'', ''Process.Start''),
      (''image_load'', ''Image.Load''),
      (''dns'', ''Dns.Query''),
      (''dns_query'', ''Dns.Query''),
      (''network_connection'', ''Net.Any''),
      (''firewall'', ''Net.Any''),
      (''create_remote_thread'', ''Process.CreateRemoteThread''),
      (''registry_event'', ''Reg.Any''),
      (''registry_add'', ''Reg.Any''),
      (''registry_delete'', ''Reg.Any''),
      (''registry_set'', ''Reg.Any''),
      (''registry_rename'', ''Reg.Any'')]"

type_synonym unsupported = "(string \<times> nat) list"

definition convert_sigma_category_to_uberagent_event_type ::
  "string \<Rightarrow> unsupported \<Rightarrow> string option \<times> unsupported" where
  "convert_sigma_category_to_uberagent_event_type category g =
     (case map_of categories category of
        Some t \<Rightarrow> (Some t, g)
      | None \<Rightarrow>
          (case map_of g category of
             Some n \<Rightarrow> (None, AList.update category (n + 1) g)
           | None \<Rightarrow> (None, g @ [(category, 1)])))"

definition is_sigma_category_supported :: "string \<Rightarrow> unsupported \<Rightarrow> bool \<times> unsupported" where
  "is_sigma_category_supported category g =
     (case convert_sigma_category_to_uberagent_event_type category g of
        (t, g') \<Rightarrow> (t \<noteq> None, g'))"

text \<open>The class \<open>ActivityMonitoringRule\<close>: its fields and the table of generic properties.\<close>

record ActivityMonitoringRule =
  name :: string
  event_type :: "string option"
  tag :: string
  query :: string
  risk_score :: int
  description :: string
  sigma_level :: string

definition generic_properties :: "(string \<times> string list) list" where
  "generic_properties =
     [(''Process.'',
        [''Process.Hash.MD5'', ''Process.Hash.SHA1'', ''Process.Hash.SHA256'',
         ''Process.Hash.IMP'']),
      (''Image.'',
        [''Image.Name'', ''Image.Path'', ''Image.Hash.MD5'', ''Image.Hash.SHA1'',
         ''Image.Hash.SHA256'', ''Image.Hash.IMP'']),
      (''Net.'',
        [''Net.Target.Ip'', ''Net.Target.Name'', ''Net.Target.Port'', ''Net.Target.Protocol'',
         ''Net.Source.Ip'', ''Net.Source.Port'']),
      (''Reg.'',
        [''Reg.Key.Path'', ''Reg.Key.Path.New'', ''Reg.Key.Path.Old'', ''Reg.Key.Name'',
         ''Reg.Parent.Key.Path'', ''Reg.Value.Name'', ''Reg.File.Name'', ''Reg.Key.Sddl'',
         ''Reg.Key.Hive'', ''Reg.Key.Target'']),
      (''Dns.'', [''Dns.QueryRequest'', ''Dns.QueryResponse''])]"

definition new_rule :: ActivityMonitoringRule where
  "new_rule = \<lparr>name = [], event_type = None, tag = [], query = [], risk_score = 0,
     description = [], sigma_level = []\<rparr>"

definition prefixed_tag :: "ActivityMonitoringRule \<Rightarrow> string" where
  "prefixed_tag r =
     (case event_type r of
        None \<Rightarrow> tag r
      | Some t \<Rightarrow>
          (case map_of [(''Process.Start'', ''proc-start'')] t of
             None \<Rightarrow> tag r
           | Some p \<Rightarrow> p @ ''-'' @ tag r))"

text \<open>\<open>s.splitlines()\<close>: the line boundaries among the 8-bit characters.\<close>

definition linebreak :: "char \<Rightarrow> bool" where
  "linebreak c = (c \<in> set [nl, CHR 0x0D, CHR 0x0B, CHR 0x0C, CHR 0x1C, CHR 0x1D, CHR 0x1E, CHR 0x85])"

fun splitlines_from :: "string \<Rightarrow> string \<Rightarrow> string list" where
  "splitlines_from cur [] = (if cur = [] then [] else [cur])"
| "splitlines_from cur [c] = (if linebreak c then [cur] else [cur @ [c]])"
| "splitlines_from cur (c # d # cs) =
     (if c = CHR 0x0D \<and> d = nl then cur # splitlines_from [] cs
      else if linebreak c then cur # splitlines_from [] (d # cs)
      else splitlines_from (cur @ [c]) (d # cs))"

definition splitlines :: "string \<Rightarrow> string list" where
  "splitlines s = splitlines_from [] s"

text \<open>
  The two loops at the end of \<open>__str__\<close>. The inner one stops (\<open>break\<close>) once the counter
  has passed ten; the counter is shared by all the prefixes. The block is kept as the list
  of its lines, each with its newline, in the order in which they are appended.
\<close>

fun generic_property_lines :: "string list \<Rightarrow> string list \<times> nat \<Rightarrow> string list \<times> nat" where
  "generic_property_lines [] (result, counter) = (result, counter)"
| "generic_property_lines (prop # props) (result, counter) =
     (if counter > 10 then (result, counter)
      else generic_property_lines props
        (result @ [''GenericProperty'' @ str_nat counter @ '' = '' @ prop @ [nl]], counter + 1))"

fun generic_prefix_lines ::
  "(string \<times> string list) list \<Rightarrow> string \<Rightarrow> string list \<times> nat \<Rightarrow> string list \<times> nat" where
  "generic_prefix_lines [] t acc = acc"
| "generic_prefix_lines ((event_type_prefix, props) # rest) t acc =
     generic_prefix_lines rest t
       (if startswith t event_type_prefix then generic_property_lines props acc else acc)"

text \<open>
  \<open>ActivityMonitoringRule.__str__\<close>. The description lines are appended first, the four
  checks of the required properties follow, each raising \<open>MalformedRuleException\<close>.
\<close>

definition str_lines :: "ActivityMonitoringRule \<Rightarrow> py_error + string list" where
  "str_lines r =
     (let result = [''[ActivityMonitoringRule]'' @ [nl]];
          result = (if length (description r) > 0
                    then result @ map (\<lambda>description_line. ''# '' @ description_line @ [nl])
                                    (splitlines (description r))
                    else result)
      in case event_type r of
           None \<Rightarrow> Inl MalformedRuleException
         | Some t \<Rightarrow>
             if length (tag r) = 0 then Inl MalformedRuleException
             else if length (name r) = 0 then Inl MalformedRuleException
             else if length (query r) = 0 then Inl MalformedRuleException
             else
               let result = result @ [''RuleName = '' @ name r @ [nl]];
                   result = result @ [''EventType = '' @ t @ [nl]];
                   result = result @ [''Tag = '' @ prefixed_tag r @ [nl]];
                   result = (if risk_score r > 0
                             then result @ [''RiskScore = '' @ str_int (risk_score r) @ [nl]]
                             else result);
                   result = result @ [''Query = '' @ query r @ [nl]];
                   result = (if t = ''Reg.Any'' then result @ [''Hive = HKLM,HKU'' @ [nl]]
                             else result)
               in Inr (fst (generic_prefix_lines generic_properties t (result, 1))))"

definition ActivityMonitoringRule_str :: "ActivityMonitoringRule \<Rightarrow> py_error + string" where
  "ActivityMonitoringRule_str r = map_sum id concat (str_lines r)"

text \<open>\<open>write_file_header\<close>: the text its nine writes put at the head of a file.\<close>

definition write_file_header :: "string \<Rightarrow> string" where
  "write_file_header level =
     ''#'' @ [nl] @
     ''# The rules are generated from the Sigma GitHub repository at https://github.com/Neo23x0/sigma'' @ [nl] @
     ''# Follow these steps to get the latest rules from the repository with Python'' @ [nl] @
     ''#    1. Clone the repository locally'' @ [nl] @
     ''#    2. Using a commandline, change working directory to the just cloned repository'' @ [nl] @
     ''#    3. Run sigmac -I --target uberagent -r rules/'' @ [nl] @
     ''#'' @ [nl] @
     ''# The rules in this file are marked with sigma-level: '' @ level @ [nl] @
     ''#'' @ [nl, nl]"

text \<open>
  \<open>serialize_file\<close>: the loop over the accumulated rules. A rule of another level is passed
  over; a rule whose block raises \<open>MalformedRuleException\<close> is passed over by the handler;
  any other exception would leave the loop. The result is the text of the file and the count.
\<close>

fun serialize_rules ::
  "ActivityMonitoringRule list \<Rightarrow> string \<Rightarrow> string \<times> nat \<Rightarrow> py_error + string \<times> nat" where
  "serialize_rules [] level (file, count) = Inr (file, count)"
| "serialize_rules (rule # rules) level (file, count) =
     (if sigma_level rule = level then
        (case ActivityMonitoringRule_str rule of
           Inr serialized_rule \<Rightarrow>
             serialize_rules rules level (file @ serialized_rule @ [nl], count + 1)
         | Inl e \<Rightarrow>
             if e = MalformedRuleException then serialize_rules rules level (file, count)
             else Inl e)
      else serialize_rules rules level (file, count))"

definition serialize_file ::
  "ActivityMonitoringRule list \<Rightarrow> string \<Rightarrow> py_error + string \<times> nat" where
  "serialize_file rules level = serialize_rules rules level (write_file_header level, 0)"

text \<open>
  The state of the uberAgent backend: the class attributes \<open>rules\<close> and
  \<open>current_category\<close>, the module's dictionary \<open>gUnsupportedCategories\<close>, the files
  written so far (name and text) and the lines printed.
\<close>

record backend =
  rules :: "ActivityMonitoringRule list"
  current_category :: "string option"
  gUnsupportedCategories :: unsupported
  files :: "(string \<times> string) list"
  stdout :: "string list"

text \<open>
  \<open>finalize\<close>: four files, in the order critical, high, low, medium, and then the report.
\<close>

definition unsupported_report :: "unsupported \<Rightarrow> string list" where
  "unsupported_report g =
     (''There are '' @ str_nat (length g) @ '' unsupported categories.'') #
     map (\<lambda>(category, n).
           ''Category '' @ category @ '' has '' @ str_nat n @ '' unsupported rules.'') g"

definition finalize :: "backend \<Rightarrow> py_error + backend" where
  "finalize b =
     (case serialize_file (rules b) ''critical'' of Inl e \<Rightarrow> Inl e
      | Inr (file_critical, count_critical) \<Rightarrow>
     (case serialize_file (rules b) ''high'' of Inl e \<Rightarrow> Inl e
      | Inr (file_high, count_high) \<Rightarrow>
     (case serialize_file (rules b) ''low'' of Inl e \<Rightarrow> Inl e
      | Inr (file_low, count_low) \<Rightarrow>
     (case serialize_file (rules b) ''medium'' of Inl e \<Rightarrow> Inl e
      | Inr (file_medium, count_medium) \<Rightarrow>
        Inr (b\<lparr>files :=
                 AList.update ''uberAgent-ESA-am-sigma-medium.conf'' file_medium
                   (AList.update ''uberAgent-ESA-am-sigma-low.conf'' file_low
                     (AList.update ''uberAgent-ESA-am-sigma-high.conf'' file_high
                       (AList.update ''uberAgent-ESA-am-sigma-critical.conf'' file_critical
                         (files b)))),
               stdout := stdout b @
                 [''Generated '' @ str_nat (length (rules b)) @ '' activity monitoring rules..'',
                  ''This includes '' @ str_nat count_critical @ '' critical rules, '' @
                    str_nat count_high @ '' high rules, '' @ str_nat count_medium @
                    '' medium rules and '' @ str_nat count_low @ '' low rules..''] @
                 unsupported_report (gUnsupportedCategories b)\<rparr>)))))"

section \<open>The uberAgent backend: field names\<close>

definition fieldMapping :: "(string \<times> string) list" where
  "fieldMapping =
     [(''commandline'', ''Process.CommandLine''),
      (''image'', ''Process.Path''),
      (''originalfilename'', ''Process.Name''),
      (''imageloaded'', ''Image.Path''),
      (''imagepath'', ''Image.Path''),
      (''parentcommandline'', ''Parent.CommandLine''),
      (''parentprocessname'', ''Parent.Name''),
      (''parentimage'', ''Parent.Path''),
      (''path'', ''Process.Path''),
      (''processcommandline'', ''Process.CommandLine''),
      (''command'', ''Process.CommandLine''),
      (''processname'', ''Process.Name''),
      (''user'', ''Process.User''),
      (''username'', ''Process.User''),
      (''company'', ''Process.Company'')]"

definition fieldMappingPerCategory :: "(string \<times> (string \<times> string) list) list" where
  "fieldMappingPerCategory =
     [(''process_creation'',
        [(''sha1'', ''Process.Hash.SHA1''), (''imphash'', ''Process.Hash.IMP''),
         (''childimage'', ''Process.Path'')]),
      (''image_load'',
        [(''sha1'', ''Image.Hash.SHA1''), (''imphash'', ''Image.Hash.IMP''),
         (''childimage'', ''Image.Path'')]),
      (''dns'', [(''query'', ''Dns.QueryRequest''), (''answer'', ''Dns.QueryResponse'')]),
      (''dns_query'', [(''queryname'', ''Dns.QueryRequest'')]),
      (''network_connection'',
        [(''destinationport'', ''Net.Target.Port''), (''destinationip'', ''Net.Target.Ip''),
         (''destinationhostname'', ''Net.Target.Name''),
         (''destinationisipv6'', ''Net.Target.IpIsV6''),
         (''sourceport'', ''Net.Source.Port'')]),
      (''firewall'',
        [(''destination.port'', ''Net.Target.Port''), (''dst_ip'', ''Net.Target.Ip''),
         (''src_ip'', ''Net.Source.Ip'')]),
      (''create_remote_thread'',
        [(''targetimage'', ''Process.Path''), (''startmodule'', ''Thread.StartModule''),
         (''startfunction'', ''Thread.StartFunctionName'')]),
      (''registry_event'',
        [(''targetobject'', ''Reg.Key.Target''), (''newname'', ''Reg.Key.Path.New'')]),
      (''registry_add'',
        [(''targetobject'', ''Reg.Key.Target''), (''newname'', ''Reg.Key.Path.New'')]),
      (''registry_delete'',
        [(''targetobject'', ''Reg.Key.Target''), (''newname'', ''Reg.Key.Path.New'')]),
      (''registry_set'',
        [(''targetobject'', ''Reg.Key.Target''), (''newname'', ''Reg.Key.Path.New'')]),
      (''registry_rename'',
        [(''targetobject'', ''Reg.Key.Target''), (''newname'', ''Reg.Key.Path.New'')])]"

definition ignoreFieldList :: "string list" where
  "ignoreFieldList =
     [''description'', ''product'', ''logonid'', ''integritylevel'', ''currentdirectory'',
      ''parentintegritylevel'', ''eventid'', ''parentuser'', ''parent_domain'', ''signed'',
      ''parentofparentimage'', ''record_type'', ''querystatus'', ''initiated'', ''action'',
      ''targetprocessaddress'', ''sourceimage'', ''eventtype'', ''details'']"

text \<open>
  The guard of the first \<open>if\<close> of \<open>fieldNameMapping\<close>, as a lookup: the category is set, it
  has a table, and the key is in that table.
\<close>

definition category_lookup :: "string option \<Rightarrow> string \<Rightarrow> string option" where
  "category_lookup category key =
     (case category of
        None \<Rightarrow> None
      | Some c \<Rightarrow>
          (case map_of fieldMappingPerCategory c of
             None \<Rightarrow> None
           | Some table \<Rightarrow> map_of table key))"

definition fieldNameMapping :: "string option \<Rightarrow> string \<Rightarrow> py_error + string" where
  "fieldNameMapping category fieldname =
     (let key = lower fieldname in
      case category_lookup category key of
        Some target \<Rightarrow> Inr target
      | None \<Rightarrow>
          (case map_of fieldMapping key of
             None \<Rightarrow>
               if key \<in> set ignoreFieldList then Inl IgnoreFieldException
               else Inl NotImplementedError
           | Some target \<Rightarrow> Inr target))"

section \<open>The uberAgent backend: values\<close>

text \<open>Scalars of a rule are strings or integers; \<open>str(v)\<close> is the text of either.\<close>

datatype pyval = PyStr string | PyInt int

fun py_str :: "pyval \<Rightarrow> string" where
  "py_str (PyStr s) = s"
| "py_str (PyInt i) = str_int i"

text \<open>
  The first substitution of \<open>cleanValue\<close>, \<open>(?<!\\)\\(?!(\\|\*|\?))\<close> replaced by two
  backslashes: a backslash that no backslash precedes and that none of backslash, \<open>*\<close>, \<open>?\<close>
  follows is doubled. The flag says whether the character before the position, in the
  string being searched, is a backslash.
\<close>

fun double_single_backslashes :: "bool \<Rightarrow> string \<Rightarrow> string" where
  "double_single_backslashes p [] = []"
| "double_single_backslashes p (c # cs) =
     (if c = bs \<and> \<not> p \<and> (case cs of [] \<Rightarrow> True | d # _ \<Rightarrow> d \<notin> {bs, CHR ''*'', CHR ''?''})
      then bs # bs # double_single_backslashes True cs
      else c # double_single_backslashes (c = bs) cs)"

text \<open>
  The last two substitutions, \<open>(?<!\\)(\\\\)*(?!\\)g\<close> replaced by \<open>\1r\<close> for the glyph \<open>g\<close>
  and its translation \<open>r\<close>. A match starts where no backslash precedes, takes pairs of
  backslashes up to a position that no backslash follows, so the whole run of backslashes
  and an even number of them, and then the glyph. Group 1 is the last pair matched, or
  nothing when there is none: the replacement keeps one pair of the run at most. The search
  goes on after the match; where nothing matches, the character is copied.
\<close>

function translate_glyph :: "char \<Rightarrow> char \<Rightarrow> bool \<Rightarrow> string \<Rightarrow> string" where
  "translate_glyph g r p [] = []"
| "translate_glyph g r p (c # cs) =
     (let run = takeWhile (\<lambda>x. x = bs) (c # cs);
          rest = dropWhile (\<lambda>x. x = bs) (c # cs)
      in if \<not> p \<and> even (length run) \<and> rest \<noteq> [] \<and> hd rest = g
         then (if run = [] then [] else [bs, bs]) @ r # translate_glyph g r False (tl rest)
         else c # translate_glyph g r (c = bs) cs)"
  by pat_completeness auto
termination
  by (relation "measure (\<lambda>(g, r, p, s). length s)")
     (auto simp: less_Suc_eq_le length_dropWhile_le intro: le_trans [OF diff_le_self])

text \<open>
  \<open>uberAgentBackend.cleanValue\<close>: a value that is not a string is returned as its text;
  a string goes through the six substitutions in turn.
\<close>

fun uberAgent_cleanValue :: "pyval \<Rightarrow> string" where
  "uberAgent_cleanValue (PyInt i) = str_int i"
| "uberAgent_cleanValue (PyStr val) =
     (let val = double_single_backslashes False val;
          val = replace_char CHR ''_'' [bs, CHR ''_''] val;
          val = replace_char CHR ''%'' [bs, CHR ''%''] val;
          val = replace_char dq [bs, dq] val;
          val = translate_glyph CHR ''*'' CHR ''%'' False val;
          val = translate_glyph CHR ''?'' CHR ''_'' False val
      in val)"

text \<open>
  The search of \<open>generateMapItemNode\<close>, \<open>((\\(\*|\?|\\))|\*|\?|_|%)\<close>: somewhere in the
  text stands a backslash followed by \<open>*\<close>, \<open>?\<close> or a backslash, or one of \<open>*\<close>, \<open>?\<close>,
  \<open>_\<close>, \<open>%\<close>.
\<close>

fun has_wildcard :: "string \<Rightarrow> bool" where
  "has_wildcard [] = False"
| "has_wildcard (c # cs) =
     ((c = bs \<and> (case cs of [] \<Rightarrow> False | d # _ \<Rightarrow> d \<in> {CHR ''*'', CHR ''?'', bs}))
      \<or> c \<in> {CHR ''*'', CHR ''?'', CHR ''_'', CHR ''%''}
      \<or> has_wildcard cs)"

section \<open>The condition tree\<close>

text \<open>
  The value of a field match is a scalar, a list of scalars (an item may be \<open>None\<close>),
  \<open>None\<close>, or a typed modifier with its payload; the regular expression is the one kind
  of modifier the backends can tell from the others.
\<close>

datatype modifier =
    SigmaRegularExpressionModifier string
  | SigmaOtherTypeModifier string string

datatype mapvalue =
    Scalar pyval
  | ListValue "pyval option list"
  | NoneValue
  | Typed modifier

datatype node =
    ConditionAND "node list"
  | ConditionOR "node list"
  | ConditionNOT node
  | NodeSubexpression node
  | MapItem string mapvalue
  | ValueNode pyval

text \<open>
  Rendering the children of a combinator in order: a child that raises
  \<open>IgnoreFieldException\<close> renders to nothing and is passed over, any other exception is
  the one raised, and the texts of the remaining children are kept.
\<close>

fun collect_present :: "(py_error + 'a) list \<Rightarrow> py_error + 'a list" where
  "collect_present [] = Inr []"
| "collect_present (Inl e # rs) =
     (if e = IgnoreFieldException then collect_present rs else Inl e)"
| "collect_present (Inr x # rs) =
     (case collect_present rs of Inl e \<Rightarrow> Inl e | Inr xs \<Rightarrow> Inr (x # xs))"

section \<open>The uberAgent backend: the node compiler\<close>

text \<open>
  Modelled from the spec: the renderers that \<open>uberAgentBackend\<close> inherits from
  \<open>SingleTextQueryBackend\<close>, whose file is not among the sources. A value is cleaned and
  put into \<open>valueExpression\<close>; a list of strings and numbers is joined with \<open>listSeparator\<close>
  inside \<open>listExpression\<close>, any other item being a \<open>TypeError\<close>.
\<close>

definition py_str_opt :: "pyval option \<Rightarrow> string" where
  "py_str_opt v = (case v of None \<Rightarrow> ''None'' | Some x \<Rightarrow> py_str x)"

definition uberAgent_generateValueNode :: "pyval option \<Rightarrow> string" where
  "uberAgent_generateValueNode v = [dq] @ uberAgent_cleanValue (PyStr (py_str_opt v)) @ [dq]"

definition uberAgent_generateListNode :: "pyval option list \<Rightarrow> py_error + string" where
  "uberAgent_generateListNode items =
     (if None \<in> set items then Inl TypeError
      else Inr (''['' @ join '', '' (map uberAgent_generateValueNode items) @ '']''))"

text \<open>
  \<open>generateNode\<close> on the value of a field match. A typed modifier goes to
  \<open>generateTypedValueNode\<close>, which raises \<open>IgnoreTypedModifierException\<close>.
\<close>

fun uberAgent_generateValue :: "mapvalue \<Rightarrow> py_error + string" where
  "uberAgent_generateValue (Scalar v) = Inr (uberAgent_generateValueNode (Some v))"
| "uberAgent_generateValue (ListValue items) = uberAgent_generateListNode items"
| "uberAgent_generateValue (Typed m) = Inl IgnoreTypedModifierException"
| "uberAgent_generateValue NoneValue = Inl TypeError"

text \<open>\<open>uberAgentBackend.generateMapItemListNode\<close>.\<close>

definition uberAgent_generateMapItemListNode :: "string \<Rightarrow> pyval option list \<Rightarrow> string" where
  "uberAgent_generateMapItemListNode key items =
     ''('' @ join '' or '' (map (\<lambda>item. key @ '' like r'' @ uberAgent_generateValueNode item) items)
       @ '')''"

text \<open>
  \<open>uberAgentBackend.generateMapItemNode\<close>. The field name is resolved first, and an
  exception of \<open>fieldNameMapping\<close> is not handled here.
\<close>

definition uberAgent_generateMapItemNode ::
  "string option \<Rightarrow> string \<Rightarrow> mapvalue \<Rightarrow> py_error + string" where
  "uberAgent_generateMapItemNode category fieldname v =
     (case fieldNameMapping category fieldname of
        Inl e \<Rightarrow> Inl e
      | Inr transformed_fieldname \<Rightarrow>
          if v = NoneValue then Inr (transformed_fieldname @ '' == '' @ [sq, sq])
          else
            (case uberAgent_generateValue v of
               Inl e \<Rightarrow> Inl e
             | Inr generated \<Rightarrow>
                 if CHR '','' \<in> set generated \<and> \<not> has_wildcard generated
                 then Inr (transformed_fieldname @ '' in '' @ generated)
                 else
                   (case v of
                      ListValue items \<Rightarrow>
                        Inr (uberAgent_generateMapItemListNode transformed_fieldname items)
                    | Scalar x \<Rightarrow>
                        if has_wildcard generated
                        then Inr (transformed_fieldname @ '' like r'' @ generated)
                        else Inr (transformed_fieldname @ '' == '' @ generated)
                    | _ \<Rightarrow>
                        if has_wildcard generated
                        then Inr (transformed_fieldname @ '' like r'' @ generated)
                        else Inl TypeError)))"

text \<open>
  Modelled from the spec: \<open>generateNode\<close> and the renderers of the combinators, inherited
  from the base class, whose file is not among the sources. The children of a conjunction
  or disjunction are rendered in order; a child whose field is ignored renders to nothing
  and the combinator treats it as absent, joining the remaining rendered children with its
  token. A negation is the token and the rendered child, a subexpression is the rendered
  child in parentheses, a bare value is rendered as a value; with a child that renders to
  nothing these two render to nothing as well, for the combinator around them. Any other
  exception ends the rendering of the tree.
\<close>

fun uberAgent_generateNode :: "string option \<Rightarrow> node \<Rightarrow> py_error + string" where
  "uberAgent_generateNode category (ConditionAND ns) =
     map_sum id (join '' and '')
       (collect_present (map (uberAgent_generateNode category) ns))"
| "uberAgent_generateNode category (ConditionOR ns) =
     map_sum id (join '' or '')
       (collect_present (map (uberAgent_generateNode category) ns))"
| "uberAgent_generateNode category (ConditionNOT n) =
     map_sum id (\<lambda>generated. ''not '' @ generated) (uberAgent_generateNode category n)"
| "uberAgent_generateNode category (NodeSubexpression n) =
     map_sum id (\<lambda>generated. ''('' @ generated @ '')'') (uberAgent_generateNode category n)"
| "uberAgent_generateNode category (MapItem fieldname v) =
     uberAgent_generateMapItemNode category fieldname v"
| "uberAgent_generateNode category (ValueNode v) = Inr (uberAgent_generateValueNode (Some v))"

section \<open>The uberAgent backend: one rule\<close>

text \<open>
  What \<open>get_parser_properties\<close> reads of a parsed rule, and its one parsed condition: the
  tree and whether an aggregation is attached.
\<close>

record sigmaparser =
  yaml_title :: string
  yaml_level :: string
  yaml_description :: string
  logsource_category :: "string option"
  logsource_product :: "string option"
  parsedSearch :: node
  parsedAgg :: bool

text \<open>
  \<open>convert_sigma_name_to_uberagent_tag\<close>: lower case, hyphens for spaces, and a run of two
  or more hyphens becomes one. The flag says that the previous character was a hyphen.
\<close>

fun collapse_hyphens :: "bool \<Rightarrow> string \<Rightarrow> string" where
  "collapse_hyphens p [] = []"
| "collapse_hyphens p (c # cs) =
     (if c = CHR ''-'' then (if p then collapse_hyphens True cs else c # collapse_hyphens True cs)
      else c # collapse_hyphens False cs)"

definition convert_sigma_name_to_uberagent_tag :: "string \<Rightarrow> string" where
  "convert_sigma_name_to_uberagent_tag n =
     collapse_hyphens False (replace_char CHR '' '' ''-'' (lower n))"

text \<open>\<open>uberAgentBackend.generateQuery\<close>.\<close>

definition uberAgent_generateQuery :: "string option \<Rightarrow> sigmaparser \<Rightarrow> py_error + string" where
  "uberAgent_generateQuery category sp =
     (if parsedAgg sp then Inl IgnoreAggregationException
      else uberAgent_generateNode category (parsedSearch sp))"

text \<open>
  Modelled from the spec: \<open>generate\<close> of the base class, whose file is not among the
  sources. The text of the rule is the text of its query; the base class puts nothing
  before or after it.
\<close>

definition base_generate :: "string option \<Rightarrow> sigmaparser \<Rightarrow> py_error + string" where
  "base_generate category sp = uberAgent_generateQuery category sp"

text \<open>
  \<open>uberAgentBackend.generate\<close>. The result is the value returned (\<open>None\<close> when the method
  runs to its end) or the exception that leaves it, with the state of the backend after
  the call. The four exceptions of the handlers give the empty string.
\<close>

definition uberAgent_generate ::
  "backend \<Rightarrow> sigmaparser \<Rightarrow> (py_error + string option) \<times> backend" where
  "uberAgent_generate b sp =
     (let product = (case logsource_product sp of Some p \<Rightarrow> lower p | None \<Rightarrow> []);
          category = (case logsource_category sp of Some c \<Rightarrow> lower c | None \<Rightarrow> []);
          (supported, g) = is_sigma_category_supported category (gUnsupportedCategories b);
          b = b\<lparr>gUnsupportedCategories := g\<rparr>
      in if \<not> supported then (Inr (Some []), b)
         else if product \<notin> set [''windows'', []] then (Inr (Some []), b)
         else
           let b = b\<lparr>current_category := Some category\<rparr> in
           case base_generate (current_category b) sp of
             Inl e \<Rightarrow>
               if e \<in> {IgnoreTypedModifierException, IgnoreAggregationException,
                        IgnoreFieldException, MalformedRuleException}
               then (Inr (Some []), b)
               else (Inl e, b)
           | Inr generated \<Rightarrow>
               if length generated > 0 then
                 let (t, g) = convert_sigma_category_to_uberagent_event_type category
                                (gUnsupportedCategories b);
                     rule = new_rule\<lparr>name := yaml_title sp,
                              tag := convert_sigma_name_to_uberagent_tag (yaml_title sp),
                              event_type := t,
                              query := generated,
                              risk_score :=
                                convert_sigma_level_to_uberagent_risk_score (yaml_level sp),
                              sigma_level := yaml_level sp,
                              description := yaml_description sp\<rparr>
                 in (Inr None,
                     b\<lparr>gUnsupportedCategories := g,
                       rules := rules b @ [rule],
                       stdout := stdout b @
                         [''Generated rule <'' @ name rule @ ''>.. [level: '' @ yaml_level sp @ '']'']\<rparr>)
               else (Inr None, b))"

section \<open>The QRadar backend\<close>

text \<open>\<open>QRadarBackend.cleanKey\<close> and \<open>QRadarBackend.cleanValue\<close>.\<close>

definition QRadar_cleanKey :: "string option \<Rightarrow> string" where
  "QRadar_cleanKey key =
     (case key of
        None \<Rightarrow> []
      | Some k \<Rightarrow> if CHR '' '' \<in> set k then [dq] @ k @ [dq] else k)"

definition QRadar_cleanValue :: "string \<Rightarrow> string" where
  "QRadar_cleanValue v = replace_char sq [bs, sq] v"

text \<open>\<open>QRadarBackend.generateValueNode\<close>.\<close>

definition QRadar_generateValueNode :: "pyval \<Rightarrow> bool \<Rightarrow> string" where
  "QRadar_generateValueNode n keypresent =
     (if keypresent = False
      then ''UTF8(payload) ilike '' @ [sq] @ ''%'' @ QRadar_cleanValue (py_str n) @ ''%'' @ [sq]
      else [sq] @ QRadar_cleanValue (py_str n) @ [sq])"

text \<open>
  \<open>QRadarBackend.generateMapItemListNode\<close>: the loop renders each item after the first
  test that it passes, and the clauses are joined.
\<close>

fun is_str :: "pyval \<Rightarrow> bool" where
  "is_str (PyStr s) = True"
| "is_str (PyInt i) = False"

definition QRadar_list_item :: "string \<Rightarrow> pyval option \<Rightarrow> string" where
  "QRadar_list_item key item =
     (case item of
        None \<Rightarrow> key @ '' is null''
      | Some v \<Rightarrow>
          if is_str v \<and> contains key ''ip'' \<and>
             (contains (py_str v) ''/16'' \<or> contains (py_str v) ''/24'')
          then ''INCIDR('' @ QRadar_generateValueNode v True @ '', '' @ QRadar_cleanKey (Some key) @ '')''
          else if is_str v \<and> CHR ''*'' \<in> set (py_str v)
          then QRadar_cleanKey (Some key) @ '' ilike '' @
                 QRadar_generateValueNode (PyStr (replace_char CHR ''*'' ''%'' (py_str v))) True
          else QRadar_cleanKey (Some key) @ '' = '' @ QRadar_generateValueNode v True)"

definition QRadar_generateMapItemListNode :: "string \<Rightarrow> pyval option list \<Rightarrow> string" where
  "QRadar_generateMapItemListNode key items =
     ''('' @ join '' or '' (map (QRadar_list_item key) items) @ '')''"

text \<open>
  \<open>QRadarBackend.generateMapItemTypedNode\<close>: the two tests on the regular expression, the
  second on the text as the first has left it.
\<close>

definition anchor_regex :: "string \<Rightarrow> string" where
  "anchor_regex regex =
     (let regex = (if \<not> startswith regex ''^'' \<and> \<not> startswith regex ''.*''
                   then ''.*'' @ regex else regex);
          regex = (if \<not> endswith regex ''$'' \<and> \<not> endswith regex ''.*''
                   then regex @ ''.*'' else regex)
      in regex)"

fun QRadar_generateMapItemTypedNode :: "string \<Rightarrow> modifier \<Rightarrow> py_error + string" where
  "QRadar_generateMapItemTypedNode fieldname (SigmaOtherTypeModifier identifier payload) =
     Inl NotImplementedError"
| "QRadar_generateMapItemTypedNode fieldname (SigmaRegularExpressionModifier payload) =
     Inr (QRadar_cleanKey (Some fieldname) @ '' imatches '' @
          QRadar_generateValueNode (PyStr (anchor_regex payload)) True)"

text \<open>
  \<open>QRadarBackend.generateMapItemNode\<close>, with \<open>mapListsSpecialHandling\<close> set as the class
  sets it: a string or a number first, then a list, a typed modifier, \<open>None\<close>.
\<close>

fun QRadar_generateMapItemNode :: "string \<Rightarrow> mapvalue \<Rightarrow> py_error + string" where
  "QRadar_generateMapItemNode key (Scalar v) =
     (if is_str v \<and> CHR ''*'' \<in> set (py_str v)
      then Inr (QRadar_cleanKey (Some key) @ '' ilike '' @
                QRadar_generateValueNode (PyStr (replace_char CHR ''*'' ''%'' (py_str v))) True)
      else Inr (QRadar_cleanKey (Some key) @ ''='' @ QRadar_generateValueNode v True))"
| "QRadar_generateMapItemNode key (ListValue items) =
     Inr (QRadar_generateMapItemListNode key items)"
| "QRadar_generateMapItemNode key (Typed m) = QRadar_generateMapItemTypedNode key m"
| "QRadar_generateMapItemNode key NoneValue = Inr (key @ '' is null'')"

text \<open>
  \<open>int(s)\<close> on a string: white space around, a sign, decimal digits, single underscores
  between digits; anything else is a \<open>ValueError\<close> (\<open>None\<close> here).
\<close>

definition py_space :: "char \<Rightarrow> bool" where
  "py_space c =
     (c \<in> set [CHR 0x09, nl, CHR 0x0B, CHR 0x0C, CHR 0x0D, CHR '' '', CHR 0x85, CHR 0xA0])"

definition strip :: "string \<Rightarrow> string" where
  "strip s = rev (dropWhile py_space (rev (dropWhile py_space s)))"

definition digit_value :: "char \<Rightarrow> nat option" where
  "digit_value c = map_of (zip ''0123456789'' [0 ..< 10]) c"

fun parse_digits :: "bool \<Rightarrow> nat \<Rightarrow> string \<Rightarrow> nat option" where
  "parse_digits d acc [] = (if d then Some acc else None)"
| "parse_digits d acc (c # cs) =
     (case digit_value c of
        Some v \<Rightarrow> parse_digits True (10 * acc + v) cs
      | None \<Rightarrow> if c = CHR ''_'' \<and> d then parse_digits False acc cs else None)"

definition py_int :: "string \<Rightarrow> int option" where
  "py_int s =
     (case strip s of
        [] \<Rightarrow> None
      | c # cs \<Rightarrow>
          if c = CHR ''-'' then map_option (\<lambda>n. - int n) (parse_digits False 0 cs)
          else if c = CHR ''+'' then map_option int (parse_digits False 0 cs)
          else map_option int (parse_digits False 0 (c # cs)))"

text \<open>
  \<open>QRadarBackend.generateTimeframe\<close>: the dictionary it returns has one entry, the unit
  and the duration. \<open>timeframe[-1:]\<close> is the last character, or nothing for the empty
  string; \<open>timeframe[:-1]\<close> is the rest.
\<close>

definition QRadar_generateTimeframe :: "string \<Rightarrow> py_error + (string \<times> int) list" where
  "QRadar_generateTimeframe timeframe =
     (let time_unit = drop (length timeframe - 1) timeframe;
          duration = butlast timeframe
      in case py_int duration of
           None \<Rightarrow> Inl ValueError
         | Some d \<Rightarrow>
             if time_unit = ''s'' then Inr [(''seconds'', d)]
             else if time_unit = ''m'' then Inr [(''minutes'', d)]
             else if time_unit = ''h'' then Inr [(''hours'', d)]
             else if time_unit = ''d'' then Inr [(''days'', d)]
             else Inr [(''months'', d)])"

text \<open>
  The aggregation clause of a rule, as \<open>generateAggregation\<close> reads it; \<open>condition\<close> is the
  text of the threshold.
\<close>

datatype aggfunc =
  AGGFUNC_COUNT | AGGFUNC_MIN | AGGFUNC_MAX | AGGFUNC_AVG | AGGFUNC_SUM | AGGFUNC_NEAR

record aggregation =
  aggfunc :: aggfunc
  aggfunc_notrans :: string
  aggfield :: "string option"
  groupfield :: "string option"
  cond_op :: string
  condition :: string

text \<open>
  \<open>QRadarBackend.generateAggregation\<close> returns the empty string without an aggregation
  and a pair otherwise; the pair is also what it leaves in \<open>qradarPrefixAgg\<close> and
  \<open>qradarSuffixAgg\<close>. The time frame \<open>'00'\<close>, the default of the parameter, counts as none.
  A loop over an empty dictionary would end the method with \<open>None\<close>.
\<close>

datatype agg_result = EmptyString | PrefixSuffix string string | ReturnsNone

definition aql_database :: string where
  "aql_database = ''events''"

definition QRadar_generateAggregation ::
  "aggregation option \<Rightarrow> string option \<Rightarrow> py_error + agg_result" where
  "QRadar_generateAggregation agg_opt timeframe =
     (case agg_opt of
        None \<Rightarrow> Inr EmptyString
      | Some agg \<Rightarrow>
          if aggfunc agg = AGGFUNC_NEAR then Inl NotImplementedError
          else if groupfield agg = None then
            Inr (PrefixSuffix
              (''SELECT '' @ aggfunc_notrans agg @ ''('' @ QRadar_cleanKey (aggfield agg) @
                 '') as agg_val from '' @ aql_database @ '' where'')
              ('' group by '' @ QRadar_cleanKey (aggfield agg) @ '' having agg_val '' @
                 cond_op agg @ '' '' @ condition agg))
          else
            (case (if timeframe = Some ''00'' then None else timeframe) of
               None \<Rightarrow>
                 Inr (PrefixSuffix
                   ('' SELECT '' @ aggfunc_notrans agg @ ''('' @ QRadar_cleanKey (aggfield agg) @
                      '') as agg_val from '' @ aql_database @ '' where '')
                   ('' group by '' @ QRadar_cleanKey (groupfield agg) @ '' having agg_val '' @
                      cond_op agg @ '' '' @ condition agg))
             | Some tf \<Rightarrow>
                 (case QRadar_generateTimeframe tf of
                    Inl e \<Rightarrow> Inl e
                  | Inr [] \<Rightarrow> Inr ReturnsNone
                  | Inr ((key, duration) # _) \<Rightarrow>
                      Inr (PrefixSuffix
                        ('' SELECT '' @ aggfunc_notrans agg @ ''('' @
                           QRadar_cleanKey (aggfield agg) @ '') as agg_val from '' @
                           aql_database @ '' where '')
                        ('' group by '' @ QRadar_cleanKey (groupfield agg) @
                           '' having agg_val '' @ cond_op agg @ '' '' @ condition agg @
                           '' LAST '' @ str_int duration @ '' '' @ key)))))"

section \<open>Notions used in the statements\<close>

text \<open>
  The partition of a batch for one severity level: the blocks of the rules of that level
  whose block can be serialized, in the order of the batch.
\<close>

definition partition_blocks :: "ActivityMonitoringRule list \<Rightarrow> string \<Rightarrow> string list" where
  "partition_blocks rs lvl =
     concat (map (\<lambda>r. if sigma_level r = lvl
                        then (case ActivityMonitoringRule_str r of Inr s \<Rightarrow> [s] | Inl e \<Rightarrow> [])
                        else []) rs)"

text \<open>The line of the \<open>i\<close>-th generic property.\<close>

definition generic_property_line :: "nat \<times> string \<Rightarrow> string" where
  "generic_property_line ip = ''GenericProperty'' @ str_nat (fst ip) @ '' = '' @ snd ip @ [nl]"

text \<open>The category of a rule as \<open>get_parser_properties\<close> gives it.\<close>

definition rule_category :: "sigmaparser \<Rightarrow> string" where
  "rule_category sp = (case logsource_category sp of Some c \<Rightarrow> lower c | None \<Rightarrow> [])"

text \<open>
  The category-scoped table with one key for the category and the lowercased name; a
  clause that is a field match on a name of the ignore list; and a tree without the
  clauses of that kind that stand directly under a conjunction or disjunction.
\<close>

definition category_table :: "((string \<times> string) \<times> string) list" where
  "category_table =
     concat (map (\<lambda>(c, table). map (\<lambda>(k, target). ((c, k), target)) table)
               fieldMappingPerCategory)"



text \<open>
  The literal shape of a CIDR block: four decimal octets separated by dots, a slash, and
  a prefix length of at most 32.
\<close>

fun split_on :: "char \<Rightarrow> string \<Rightarrow> string \<Rightarrow> string list" where
  "split_on sep cur [] = [cur]"
| "split_on sep cur (c # cs) =
     (if c = sep then cur # split_on sep [] cs else split_on sep (cur @ [c]) cs)"

definition decimal_upto :: "nat \<Rightarrow> string \<Rightarrow> bool" where
  "decimal_upto m s =
     (s \<noteq> [] \<and> list_all (\<lambda>c. digit_value c \<noteq> None) s \<and>
      fold (\<lambda>c n. 10 * n + the (digit_value c)) s 0 \<le> m)"

definition is_cidr_block :: "string \<Rightarrow> bool" where
  "is_cidr_block s =
     (case split_on CHR ''/'' [] s of
        [address, prefix_length] \<Rightarrow>
          length (split_on CHR ''.'' [] address) = 4 \<and>
          list_all (decimal_upto 255) (split_on CHR ''.'' [] address) \<and>
          decimal_upto 32 prefix_length
      | _ \<Rightarrow> False)"

text \<open>The name of the unit that a trailing character of a time frame stands for.\<close>

definition time_unit_name :: "char \<Rightarrow> string" where
  "time_unit_name u =
     (if u = CHR ''s'' then ''seconds''
      else if u = CHR ''m'' then ''minutes''
      else if u = CHR ''h'' then ''hours''
      else if u = CHR ''d'' then ''days''
      else ''months'')"



section \<open>Sample inputs\<close>

text \<open>A rule of each kind for the batch: a critical one, an informational one, a refused one.\<close>

definition critical_rule :: ActivityMonitoringRule where
  "critical_rule =
     \<lparr>name = ''Whoami'', event_type = Some ''Process.Start'', tag = ''whoami'',
      query = ''Process.Name == '' @ [dq] @ ''whoami.exe'' @ [dq], risk_score = 100,
      description = ''Detects whoami'', sigma_level = ''critical''\<rparr>"

definition informational_rule :: ActivityMonitoringRule where
  "informational_rule =
     \<lparr>name = ''Lookup'', event_type = Some ''Dns.Query'', tag = ''lookup'',
      query = ''Dns.QueryRequest == '' @ [dq] @ ''example.org'' @ [dq], risk_score = 0,
      description = [], sigma_level = ''informational''\<rparr>"


text \<open>The lines of the blocks of the first two rules, and the empty state of a backend.\<close>

definition critical_rule_lines :: "string list" where
  "critical_rule_lines =
     [''[ActivityMonitoringRule]'' @ [nl], ''# Detects whoami'' @ [nl],
      ''RuleName = Whoami'' @ [nl], ''EventType = Process.Start'' @ [nl],
      ''Tag = proc-start-whoami'' @ [nl], ''RiskScore = 100'' @ [nl],
      ''Query = Process.Name == '' @ [dq] @ ''whoami.exe'' @ [dq, nl],
      ''GenericProperty1 = Process.Hash.MD5'' @ [nl],
      ''GenericProperty2 = Process.Hash.SHA1'' @ [nl],
      ''GenericProperty3 = Process.Hash.SHA256'' @ [nl],
      ''GenericProperty4 = Process.Hash.IMP'' @ [nl]]"

definition informational_rule_lines :: "string list" where
  "informational_rule_lines =
     [''[ActivityMonitoringRule]'' @ [nl], ''RuleName = Lookup'' @ [nl],
      ''EventType = Dns.Query'' @ [nl], ''Tag = lookup'' @ [nl],
      ''Query = Dns.QueryRequest == '' @ [dq] @ ''example.org'' @ [dq, nl],
      ''GenericProperty1 = Dns.QueryRequest'' @ [nl],
      ''GenericProperty2 = Dns.QueryResponse'' @ [nl]]"

definition empty_backend :: backend where
  "empty_backend =
     \<lparr>rules = [], current_category = None, gUnsupportedCategories = [], files = [],
      stdout = []\<rparr>"

definition informational_block :: string where
  "informational_block = concat informational_rule_lines"

text \<open>
  Parsed rules: one of a category the backend does not know, and one on process creation
  around a given tree, with a clause on a mapped field and one on an ignored field.
\<close>

definition usb_rule :: sigmaparser where
  "usb_rule =
     \<lparr>yaml_title = ''USB'', yaml_level = ''low'', yaml_description = [],
      logsource_category = Some ''Driver_Load'', logsource_product = Some ''windows'',
      parsedSearch = MapItem ''Image'' (Scalar (PyStr ''x'')), parsedAgg = False\<rparr>"


definition eventid_clause :: node where
  "eventid_clause = MapItem ''EventID'' (Scalar (PyInt 1))"

definition process_rule :: "node \<Rightarrow> sigmaparser" where
  "process_rule t =
     \<lparr>yaml_title = ''Shell'', yaml_level = ''high'', yaml_description = [],
      logsource_category = Some ''process_creation'', logsource_product = Some ''windows'',
      parsedSearch = t, parsedAgg = False\<rparr>"

text \<open>Aggregation clauses: a count grouped by a field, and a count of a field with no group.\<close>

definition count_by_user :: aggregation where
  "count_by_user =
     \<lparr>aggfunc = AGGFUNC_COUNT, aggfunc_notrans = ''count'', aggfield = None,
      groupfield = Some ''user'', cond_op = ''>'', condition = ''5''\<rparr>"

definition count_of_eventid :: aggregation where
  "count_of_eventid =
     \<lparr>aggfunc = AGGFUNC_COUNT, aggfunc_notrans = ''count'', aggfield = Some ''EventID'',
      groupfield = None, cond_op = ''>'', condition = ''5''\<rparr>"



section \<open>Proofs: rule blocks\<close>


lemma zip_upt_append:
  "zip [c ..< m] (xs @ ys) = zip [c ..< m] xs @ zip [min (c + length xs) (max c m) ..< m] ys"
proof (induction xs arbitrary: c)
  case Nil
  show ?case by (simp add: min_def max_def)
next
  case (Cons x xs)
  show ?case
  proof (cases "c < m")
    case True
    then have upt: "[c ..< m] = c # [Suc c ..< m]" by (simp add: upt_conv_Cons)
    from True have "max (Suc c) m = max c m" by (simp add: max_def)
    with Cons.IH [of "Suc c"] upt show ?thesis by simp
  next
    case False
    then show ?thesis by (simp add: min_def max_def)
  qed
qed

lemma generic_property_lines_eq:
  "generic_property_lines props (res, c) =
     (res @ map generic_property_line (zip [c ..< 11] props), min (c + length props) (max c 11))"
proof (induction props arbitrary: res c)
  case Nil
  show ?case by (simp add: min_def max_def)
next
  case (Cons p ps)
  show ?case
  proof (cases "c > 10")
    case True
    then show ?thesis by (simp add: min_def max_def)
  next
    case False
    then have upt: "[c ..< 11] = c # [Suc c ..< 11]" by (simp add: upt_conv_Cons)
    from False have "max (Suc c) 11 = (11::nat)" "max c 11 = (11::nat)" by (simp_all add: max_def)
    with False upt Cons.IH [of _ "Suc c"] show ?thesis
      by (simp add: generic_property_line_def)
  qed
qed

lemma generic_prefix_lines_eq:
  "generic_prefix_lines T t (res, c) =
     (res @ map generic_property_line
              (zip [c ..< 11] (concat (map snd (filter (\<lambda>pp. startswith t (fst pp)) T)))),
      min (c + length (concat (map snd (filter (\<lambda>pp. startswith t (fst pp)) T)))) (max c 11))"
proof (induction T arbitrary: res c)
  case Nil
  show ?case by (simp add: min_def max_def)
next
  case (Cons a T)
  obtain pre props where a: "a = (pre, props)" by (cases a)
  show ?case
  proof (cases "startswith t pre")
    case False
    with Cons.IH [of res c] a show ?thesis by simp
  next
    case True
    let ?c = "min (c + length props) (max c 11)"
    let ?rest = "concat (map snd (filter (\<lambda>pp. startswith t (fst pp)) T))"
    have m: "max ?c 11 = max c 11" by (simp add: min_def max_def)
    have n: "min (?c + length ?rest) (max c 11) = min (c + (length props + length ?rest)) (max c 11)"
      by (simp add: min_def max_def)
    from True a show ?thesis
      by (simp add: generic_property_lines_eq Cons.IH zip_upt_append m n)
  qed
qed

lemma str_lines_cases:
  "str_lines r =
     (case event_type r of
        None \<Rightarrow> Inl MalformedRuleException
      | Some t \<Rightarrow>
          if tag r = [] \<or> name r = [] \<or> query r = [] then Inl MalformedRuleException
          else Inr (([''[ActivityMonitoringRule]'' @ [nl]] @
                 (if description r = [] then []
                  else map (\<lambda>l. ''# '' @ l @ [nl]) (splitlines (description r))) @
                 [''RuleName = '' @ name r @ [nl], ''EventType = '' @ t @ [nl],
                  ''Tag = '' @ prefixed_tag r @ [nl]] @
                 (if 0 < risk_score r then [''RiskScore = '' @ str_int (risk_score r) @ [nl]]
                  else []) @
                 [''Query = '' @ query r @ [nl]] @
                 (if t = ''Reg.Any'' then [''Hive = HKLM,HKU'' @ [nl]] else [])) @
                map generic_property_line
                  (zip [1 ..< 11]
                     (concat (map snd (filter (\<lambda>pp. startswith t (fst pp)) generic_properties))))))"
  by (cases "event_type r")
     (simp_all add: str_lines_def Let_def generic_prefix_lines_eq del: upt.simps)









lemma convert_level_positive:
  "0 < convert_sigma_level_to_uberagent_risk_score lvl \<longleftrightarrow>
   lvl \<in> set [''critical'', ''high'', ''medium'', ''low'']"
  by (simp add: convert_sigma_level_to_uberagent_risk_score_def levels_def)
























section \<open>Proofs: the files of a batch\<close>

lemma str_only_malformed:
  "ActivityMonitoringRule_str r = Inl e \<Longrightarrow> e = MalformedRuleException"
  by (cases "event_type r")
     (auto simp: ActivityMonitoringRule_str_def str_lines_cases split: if_splits)


lemma serialize_rules_eq:
  "serialize_rules rs lvl (f, n) =
     Inr (f @ concat (map (\<lambda>s. s @ [nl]) (partition_blocks rs lvl)),
          n + length (partition_blocks rs lvl))"
proof (induction rs arbitrary: f n)
  case Nil
  show ?case by (simp add: partition_blocks_def)
next
  case (Cons r rs)
  show ?case
  proof (cases "ActivityMonitoringRule_str r")
    case (Inl e)
    with str_only_malformed [of r e] show ?thesis
      by (simp add: Cons.IH partition_blocks_def)
  next
    case (Inr s)
    then show ?thesis
      by (simp add: Cons.IH partition_blocks_def)
  qed
qed

lemma serialize_file_eq:
  "serialize_file rs lvl =
     Inr (write_file_header lvl @ concat (map (\<lambda>s. s @ [nl]) (partition_blocks rs lvl)),
          length (partition_blocks rs lvl))"
  by (simp add: serialize_file_def serialize_rules_eq)


lemma finalize_eq:
  "finalize b =
     Inr (b\<lparr>files :=
            AList.update ''uberAgent-ESA-am-sigma-medium.conf''
              (write_file_header ''medium'' @
               concat (map (\<lambda>s. s @ [nl]) (partition_blocks (rules b) ''medium'')))
           (AList.update ''uberAgent-ESA-am-sigma-low.conf''
              (write_file_header ''low'' @
               concat (map (\<lambda>s. s @ [nl]) (partition_blocks (rules b) ''low'')))
           (AList.update ''uberAgent-ESA-am-sigma-high.conf''
              (write_file_header ''high'' @
               concat (map (\<lambda>s. s @ [nl]) (partition_blocks (rules b) ''high'')))
           (AList.update ''uberAgent-ESA-am-sigma-critical.conf''
              (write_file_header ''critical'' @
               concat (map (\<lambda>s. s @ [nl]) (partition_blocks (rules b) ''critical'')))
              (files b)))),
          stdout := stdout b @
            [''Generated '' @ str_nat (length (rules b)) @ '' activity monitoring rules..'',
             ''This includes '' @
               str_nat (length (partition_blocks (rules b) ''critical'')) @ '' critical rules, '' @
               str_nat (length (partition_blocks (rules b) ''high'')) @ '' high rules, '' @
               str_nat (length (partition_blocks (rules b) ''medium'')) @ '' medium rules and '' @
               str_nat (length (partition_blocks (rules b) ''low'')) @ '' low rules..''] @
            unsupported_report (gUnsupportedCategories b)\<rparr>)"
  by (simp add: finalize_def serialize_file_eq)

lemma generate_unsupported:
  assumes "map_of categories (rule_category sp) = None"
  shows "uberAgent_generate b sp =
           (Inr (Some []),
            b\<lparr>gUnsupportedCategories :=
                (case map_of (gUnsupportedCategories b) (rule_category sp) of
                   Some n \<Rightarrow> AList.update (rule_category sp) (n + 1) (gUnsupportedCategories b)
                 | None \<Rightarrow> gUnsupportedCategories b @ [(rule_category sp, 1)])\<rparr>)"
  using assms
  by (simp add: uberAgent_generate_def rule_category_def is_sigma_category_supported_def
        convert_sigma_category_to_uberagent_event_type_def Let_def split: option.splits)




text \<open>
  C3, as the code has it. \<open>finalize\<close> writes four files, for the levels critical, high, low
  and medium, in that order: each holds its header and then, in the order of the batch,
  the blocks of the rules of that level whose block can be serialized. No file is written
  for any other level, so a rule of the level informational is in no file. The report
  gives the number of accumulated rules, the number of blocks of each of the four files,
  the number of unsupported categories and the count kept for each; that count grows by
  one with every rule that \<open>generate\<close> skips for its category.
\<close>

theorem finalize_four_partitions:
  "finalize b =
     Inr (b\<lparr>files :=
            AList.update ''uberAgent-ESA-am-sigma-medium.conf''
              (write_file_header ''medium'' @
               concat (map (\<lambda>s. s @ [nl]) (partition_blocks (rules b) ''medium'')))
           (AList.update ''uberAgent-ESA-am-sigma-low.conf''
              (write_file_header ''low'' @
               concat (map (\<lambda>s. s @ [nl]) (partition_blocks (rules b) ''low'')))
           (AList.update ''uberAgent-ESA-am-sigma-high.conf''
              (write_file_header ''high'' @
               concat (map (\<lambda>s. s @ [nl]) (partition_blocks (rules b) ''high'')))
           (AList.update ''uberAgent-ESA-am-sigma-critical.conf''
              (write_file_header ''critical'' @
               concat (map (\<lambda>s. s @ [nl]) (partition_blocks (rules b) ''critical'')))
              (files b)))),
          stdout := stdout b @
            [''Generated '' @ str_nat (length (rules b)) @ '' activity monitoring rules..'',
             ''This includes '' @
               str_nat (length (partition_blocks (rules b) ''critical'')) @ '' critical rules, '' @
               str_nat (length (partition_blocks (rules b) ''high'')) @ '' high rules, '' @
               str_nat (length (partition_blocks (rules b) ''medium'')) @ '' medium rules and '' @
               str_nat (length (partition_blocks (rules b) ''low'')) @ '' low rules..''] @
            unsupported_report (gUnsupportedCategories b)\<rparr>) \<and>
   (map_of categories (rule_category sp) = None \<longrightarrow>
      uberAgent_generate b sp =
        (Inr (Some []),
         b\<lparr>gUnsupportedCategories :=
             (case map_of (gUnsupportedCategories b) (rule_category sp) of
                Some n \<Rightarrow> AList.update (rule_category sp) (n + 1) (gUnsupportedCategories b)
              | None \<Rightarrow> gUnsupportedCategories b @ [(rule_category sp, 1)])\<rparr>))"
proof (intro conjI impI)
  show "finalize b =
     Inr (b\<lparr>files :=
            AList.update ''uberAgent-ESA-am-sigma-medium.conf''
              (write_file_header ''medium'' @
               concat (map (\<lambda>s. s @ [nl]) (partition_blocks (rules b) ''medium'')))
           (AList.update ''uberAgent-ESA-am-sigma-low.conf''
              (write_file_header ''low'' @
               concat (map (\<lambda>s. s @ [nl]) (partition_blocks (rules b) ''low'')))
           (AList.update ''uberAgent-ESA-am-sigma-high.conf''
              (write_file_header ''high'' @
               concat (map (\<lambda>s. s @ [nl]) (partition_blocks (rules b) ''high'')))
           (AList.update ''uberAgent-ESA-am-sigma-critical.conf''
              (write_file_header ''critical'' @
               concat (map (\<lambda>s. s @ [nl]) (partition_blocks (rules b) ''critical'')))
              (files b)))),
          stdout := stdout b @
            [''Generated '' @ str_nat (length (rules b)) @ '' activity monitoring rules..'',
             ''This includes '' @
               str_nat (length (partition_blocks (rules b) ''critical'')) @ '' critical rules, '' @
               str_nat (length (partition_blocks (rules b) ''high'')) @ '' high rules, '' @
               str_nat (length (partition_blocks (rules b) ''medium'')) @ '' medium rules and '' @
               str_nat (length (partition_blocks (rules b) ''low'')) @ '' low rules..''] @
            unsupported_report (gUnsupportedCategories b)\<rparr>)"
    by (rule finalize_eq)
next
  assume "map_of categories (rule_category sp) = None"
  then show "uberAgent_generate b sp =
        (Inr (Some []),
         b\<lparr>gUnsupportedCategories :=
             (case map_of (gUnsupportedCategories b) (rule_category sp) of
                Some n \<Rightarrow> AList.update (rule_category sp) (n + 1) (gUnsupportedCategories b)
              | None \<Rightarrow> gUnsupportedCategories b @ [(rule_category sp, 1)])\<rparr>)"
    by (rule generate_unsupported)
qed

theorem finalize_four_partitions_witness:
  "map_of categories (rule_category usb_rule) = None \<and>
   uberAgent_generate empty_backend usb_rule =
     (Inr (Some []), empty_backend\<lparr>gUnsupportedCategories := [(''driver_load'', 1)]\<rparr>) \<and>
   map_sum id stdout (finalize (empty_backend\<lparr>rules := [critical_rule, informational_rule],
       gUnsupportedCategories := [(''driver_load'', 1)]\<rparr>)) =
     Inr [''Generated 2 activity monitoring rules..'',
          ''This includes 1 critical rules, 0 high rules, 0 medium rules and 0 low rules..'',
          ''There are 1 unsupported categories.'',
          ''Category driver_load has 1 unsupported rules.'']"
proof -
  have a: "map_of categories (rule_category usb_rule) = None" by code_simp
  have c: "rule_category usb_rule = ''driver_load''" by code_simp
  have p: "partition_blocks [critical_rule, informational_rule] ''critical'' =
             [concat critical_rule_lines]"
     "partition_blocks [critical_rule, informational_rule] ''high'' = []"
     "partition_blocks [critical_rule, informational_rule] ''low'' = []"
     "partition_blocks [critical_rule, informational_rule] ''medium'' = []"
    by code_simp+
  have n: "str_nat 0 = ''0''" "str_nat (Suc 0) = ''1''" "str_nat (Suc (Suc 0)) = ''2''"
    by code_simp+
  from finalize_four_partitions
    [where b = "empty_backend\<lparr>rules := [critical_rule, informational_rule],
       gUnsupportedCategories := [(''driver_load'', 1)]\<rparr>" and sp = usb_rule]
  have f: "map_sum id stdout (finalize (empty_backend\<lparr>rules := [critical_rule, informational_rule],
       gUnsupportedCategories := [(''driver_load'', 1)]\<rparr>)) =
     Inr [''Generated 2 activity monitoring rules..'',
          ''This includes 1 critical rules, 0 high rules, 0 medium rules and 0 low rules..'',
          ''There are 1 unsupported categories.'',
          ''Category driver_load has 1 unsupported rules.'']"
    by (simp add: p n empty_backend_def unsupported_report_def)
  from finalize_four_partitions [where b = empty_backend and sp = usb_rule] a c
  have g: "uberAgent_generate empty_backend usb_rule =
     (Inr (Some []), empty_backend\<lparr>gUnsupportedCategories := [(''driver_load'', 1)]\<rparr>)"
    by (simp add: empty_backend_def)
  from a f g show ?thesis by blast
qed

theorem informational_rule_in_no_file:
  "ActivityMonitoringRule_str informational_rule = Inr informational_block \<and>
   sigma_level informational_rule = ''informational'' \<and>
   map_sum id files (finalize (empty_backend\<lparr>rules := [informational_rule]\<rparr>)) =
     Inr [(''uberAgent-ESA-am-sigma-critical.conf'', write_file_header ''critical''),
          (''uberAgent-ESA-am-sigma-high.conf'', write_file_header ''high''),
          (''uberAgent-ESA-am-sigma-low.conf'', write_file_header ''low''),
          (''uberAgent-ESA-am-sigma-medium.conf'', write_file_header ''medium'')]"
proof -
  have a: "ActivityMonitoringRule_str informational_rule = Inr informational_block" by code_simp
  have p: "partition_blocks [informational_rule] ''critical'' = []"
     "partition_blocks [informational_rule] ''high'' = []"
     "partition_blocks [informational_rule] ''low'' = []"
     "partition_blocks [informational_rule] ''medium'' = []"
    by code_simp+
  have l: "sigma_level informational_rule = ''informational''"
    by (simp add: informational_rule_def)
  have f: "map_sum id files (finalize (empty_backend\<lparr>rules := [informational_rule]\<rparr>)) =
     Inr [(''uberAgent-ESA-am-sigma-critical.conf'', write_file_header ''critical''),
          (''uberAgent-ESA-am-sigma-high.conf'', write_file_header ''high''),
          (''uberAgent-ESA-am-sigma-low.conf'', write_file_header ''low''),
          (''uberAgent-ESA-am-sigma-medium.conf'', write_file_header ''medium'')]"
    by (simp add: finalize_eq p empty_backend_def)
  from a l f show ?thesis by blast
qed

section \<open>Proofs: field names\<close>

lemma map_of_keyed:
  "map_of (map (\<lambda>(k, target). ((c, k), target)) table) (c', k') =
     (if c' = c then map_of table k' else None)"
  by (induction table) auto

lemma map_of_flat:
  "distinct (map fst T) \<Longrightarrow>
   map_of (concat (map (\<lambda>(c, table). map (\<lambda>(k, target). ((c, k), target)) table) T)) (c', k') =
     (case map_of T c' of None \<Rightarrow> None | Some table \<Rightarrow> map_of table k')"
proof (induction T)
  case Nil
  show ?case by simp
next
  case (Cons a T)
  obtain c table where a: "a = (c, table)" by (cases a)
  from Cons.prems a have d: "distinct (map fst T)" and n: "c \<notin> fst ` set T" by auto
  show ?case
  proof (cases "c' = c")
    case False
    with a Cons.IH [OF d] show ?thesis
      by (simp add: map_of_keyed map_add_def)
  next
    case True
    from n have "map_of T c = None" by (simp add: map_of_eq_None_iff)
    with True a Cons.IH [OF d] show ?thesis
      by (simp add: map_of_keyed map_add_def split: option.splits)
  qed
qed

lemma category_lookup_table:
  "category_lookup (Some c) key = map_of category_table (c, key)"
proof -
  have "distinct (map fst fieldMappingPerCategory)"
    by (simp add: fieldMappingPerCategory_def)
  from map_of_flat [OF this, of c key] show ?thesis
    by (simp add: category_lookup_def category_table_def)
qed

lemma fieldNameMapping_target:
  assumes "fieldNameMapping c f = Inr t"
  shows "t \<in> snd ` set fieldMapping \<union> snd ` set category_table"
proof (cases "category_lookup c (lower f)")
  case (Some t')
  with assms have t: "t' = t" by (simp add: fieldNameMapping_def Let_def)
  from Some obtain c' where "c = Some c'"
    by (cases c) (simp_all add: category_lookup_def)
  with Some t have "map_of category_table (c', lower f) = Some t"
    by (simp add: category_lookup_table)
  then have "((c', lower f), t) \<in> set category_table" by (rule map_of_SomeD)
  then show ?thesis by force
next
  case None
  with assms have "map_of fieldMapping (lower f) = Some t"
    by (auto simp: fieldNameMapping_def Let_def split: option.splits if_splits)
  then have "(lower f, t) \<in> set fieldMapping" by (rule map_of_SomeD)
  then show ?thesis by force
qed

text \<open>
  C5. \<open>fieldNameMapping\<close> resolves a field name in four steps, in this order: the table of
  the current category, keyed by the category and the lowercased name; the global table,
  keyed by the lowercased name; the ignore list, which gives \<open>IgnoreFieldException\<close>; and
  \<open>NotImplementedError\<close> otherwise. Two names that agree up to case resolve alike, and a
  resolved name is an entry of one of the two tables, as it is spelled there.
\<close>

theorem field_resolution_order:
  "category_lookup (Some c) (lower f) = map_of category_table (c, lower f) \<and>
   category_lookup None (lower f) = None \<and>
   (category_lookup cat (lower f) = Some t \<longrightarrow> fieldNameMapping cat f = Inr t) \<and>
   (category_lookup cat (lower f) = None \<and> map_of fieldMapping (lower f) = Some t \<longrightarrow>
      fieldNameMapping cat f = Inr t) \<and>
   (category_lookup cat (lower f) = None \<and> map_of fieldMapping (lower f) = None \<and>
    lower f \<in> set ignoreFieldList \<longrightarrow>
      fieldNameMapping cat f = Inl IgnoreFieldException) \<and>
   (category_lookup cat (lower f) = None \<and> map_of fieldMapping (lower f) = None \<and>
    lower f \<notin> set ignoreFieldList \<longrightarrow>
      fieldNameMapping cat f = Inl NotImplementedError) \<and>
   (lower f = lower f' \<longrightarrow> fieldNameMapping cat f = fieldNameMapping cat f') \<and>
   (fieldNameMapping cat f = Inr t \<longrightarrow>
      t \<in> snd ` set fieldMapping \<union> snd ` set category_table)"
proof (intro conjI impI)
  show "category_lookup (Some c) (lower f) = map_of category_table (c, lower f)"
    by (rule category_lookup_table)
  show "category_lookup None (lower f) = None"
    by (simp add: category_lookup_def)
  show "fieldNameMapping cat f = Inr t" if "category_lookup cat (lower f) = Some t"
    using that by (simp add: fieldNameMapping_def Let_def)
  show "fieldNameMapping cat f = Inr t"
    if "category_lookup cat (lower f) = None \<and> map_of fieldMapping (lower f) = Some t"
    using that by (simp add: fieldNameMapping_def Let_def)
  show "fieldNameMapping cat f = Inl IgnoreFieldException"
    if "category_lookup cat (lower f) = None \<and> map_of fieldMapping (lower f) = None \<and>
        lower f \<in> set ignoreFieldList"
    using that by (simp add: fieldNameMapping_def Let_def)
  show "fieldNameMapping cat f = Inl NotImplementedError"
    if "category_lookup cat (lower f) = None \<and> map_of fieldMapping (lower f) = None \<and>
        lower f \<notin> set ignoreFieldList"
    using that by (simp add: fieldNameMapping_def Let_def)
  show "fieldNameMapping cat f = fieldNameMapping cat f'" if "lower f = lower f'"
    using that by (simp add: fieldNameMapping_def Let_def)
  show "t \<in> snd ` set fieldMapping \<union> snd ` set category_table"
    if "fieldNameMapping cat f = Inr t"
    using that by (rule fieldNameMapping_target)
qed

theorem field_resolution_order_witness:
  "category_lookup (Some ''process_creation'') (lower ''SHA1'') = Some ''Process.Hash.SHA1'' \<and>
   fieldNameMapping (Some ''process_creation'') ''SHA1'' = Inr ''Process.Hash.SHA1'' \<and>
   category_lookup (Some ''process_creation'') (lower ''Image'') = None \<and>
   map_of fieldMapping (lower ''Image'') = Some ''Process.Path'' \<and>
   fieldNameMapping (Some ''process_creation'') ''Image'' = Inr ''Process.Path'' \<and>
   category_lookup (Some ''process_creation'') (lower ''EventID'') = None \<and>
   map_of fieldMapping (lower ''EventID'') = None \<and>
   lower ''EventID'' \<in> set ignoreFieldList \<and>
   fieldNameMapping (Some ''process_creation'') ''EventID'' = Inl IgnoreFieldException \<and>
   category_lookup (Some ''process_creation'') (lower ''Hashes'') = None \<and>
   map_of fieldMapping (lower ''Hashes'') = None \<and>
   lower ''Hashes'' \<notin> set ignoreFieldList \<and>
   fieldNameMapping (Some ''process_creation'') ''Hashes'' = Inl NotImplementedError \<and>
   lower ''SHA1'' = lower ''sha1'' \<and>
   fieldNameMapping (Some ''process_creation'') ''SHA1'' =
     fieldNameMapping (Some ''process_creation'') ''sha1'' \<and>
   ''Process.Hash.SHA1'' \<in> snd ` set fieldMapping \<union> snd ` set category_table"
proof -
  have a: "category_lookup (Some ''process_creation'') (lower ''SHA1'') = Some ''Process.Hash.SHA1''"
    by code_simp
  have b: "category_lookup (Some ''process_creation'') (lower ''Image'') = None"
    "map_of fieldMapping (lower ''Image'') = Some ''Process.Path''" by code_simp+
  have c: "category_lookup (Some ''process_creation'') (lower ''EventID'') = None"
    "map_of fieldMapping (lower ''EventID'') = None"
    "lower ''EventID'' \<in> set ignoreFieldList" by code_simp+
  have d: "category_lookup (Some ''process_creation'') (lower ''Hashes'') = None"
    "map_of fieldMapping (lower ''Hashes'') = None"
    "lower ''Hashes'' \<notin> set ignoreFieldList" by code_simp+
  have e: "lower ''SHA1'' = lower ''sha1''" by code_simp
  note t = field_resolution_order [where cat = "Some ''process_creation''"]
  note t2 = t [THEN conjunct2, THEN conjunct2]
  note t3 = t2 [THEN conjunct2]
  note t4 = t3 [THEN conjunct2]
  note t5 = t4 [THEN conjunct2]
  note t6 = t5 [THEN conjunct2]
  have r1: "fieldNameMapping (Some ''process_creation'') ''SHA1'' = Inr ''Process.Hash.SHA1''"
    by (rule t2 [THEN conjunct1, THEN mp]) (rule a)
  have r1': "''Process.Hash.SHA1'' \<in> snd ` set fieldMapping \<union> snd ` set category_table"
    by (rule t6 [THEN conjunct2, THEN mp]) (rule r1)
  have r1'': "fieldNameMapping (Some ''process_creation'') ''SHA1'' =
     fieldNameMapping (Some ''process_creation'') ''sha1''"
    by (rule t6 [THEN conjunct1, THEN mp]) (rule e)
  have r2: "fieldNameMapping (Some ''process_creation'') ''Image'' = Inr ''Process.Path''"
    by (rule t3 [THEN conjunct1, THEN mp]) (intro conjI b)
  have r3: "fieldNameMapping (Some ''process_creation'') ''EventID'' = Inl IgnoreFieldException"
    by (rule t4 [THEN conjunct1, THEN mp]) (intro conjI c)
  have r4: "fieldNameMapping (Some ''process_creation'') ''Hashes'' = Inl NotImplementedError"
    by (rule t5 [THEN conjunct1, THEN mp]) (intro conjI d)
  show ?thesis
    by (intro conjI) (fact a b c d e r1 r1' r1'' r2 r3 r4)+
qed

section \<open>Proofs: the ignore signal\<close>











section \<open>Proofs: regular expressions\<close>

lemma startswith_appendI: "startswith x s \<Longrightarrow> startswith (x @ y) s"
proof -
  assume a: "startswith x s"
  then have "length (take (length s) x) = length s" by (simp add: startswith_def)
  then have "length s \<le> length x" by simp
  with a show ?thesis by (simp add: startswith_def)
qed

lemma endswith_self: "endswith (x @ s) s"
  by (simp add: endswith_def)

lemma endswith_prepend: "p \<noteq> [] \<Longrightarrow> endswith (''.*'' @ p) ''$'' = endswith p ''$''"
  by (cases p rule: rev_cases) (simp_all add: endswith_def)

lemma endswith_prepend2: "p \<noteq> [] \<Longrightarrow> endswith (''.*'' @ p) ''.*'' = endswith p ''.*''"
proof (cases p rule: rev_cases)
  case Nil
  assume "p \<noteq> []"
  with Nil show ?thesis by simp
next
  case (snoc q c)
  show ?thesis
  proof (cases q rule: rev_cases)
    case Nil
    with snoc show ?thesis by (auto simp: endswith_def)
  next
    case (snoc q' d)
    with \<open>p = q @ [c]\<close> show ?thesis by (simp add: endswith_def)
  qed
qed

lemma anchor_regex_nonempty:
  "p \<noteq> [] \<Longrightarrow>
   anchor_regex p =
     (if startswith p ''^'' \<or> startswith p ''.*'' then [] else ''.*'') @ p @
     (if endswith p ''$'' \<or> endswith p ''.*'' then [] else ''.*'')"
  by (simp add: anchor_regex_def Let_def endswith_prepend endswith_prepend2 del: append.simps)

lemma anchor_regex_anchored:
  "(startswith (anchor_regex p) ''^'' \<or> startswith (anchor_regex p) ''.*'') \<and>
   (endswith (anchor_regex p) ''$'' \<or> endswith (anchor_regex p) ''.*'')"
proof -
  define r where "r = (if \<not> startswith p ''^'' \<and> \<not> startswith p ''.*'' then ''.*'' @ p else p)"
  have s: "startswith r ''^'' \<or> startswith r ''.*''"
    by (simp add: r_def startswith_def)
  have a: "anchor_regex p = (if \<not> endswith r ''$'' \<and> \<not> endswith r ''.*'' then r @ ''.*'' else r)"
    by (simp add: anchor_regex_def Let_def r_def)
  show ?thesis
  proof (cases "\<not> endswith r ''$'' \<and> \<not> endswith r ''.*''")
    case True
    with a have e: "anchor_regex p = r @ ''.*''" by simp
    from s have "startswith (r @ ''.*'') ''^'' \<or> startswith (r @ ''.*'') ''.*''"
      by (blast intro: startswith_appendI)
    moreover have "endswith (r @ ''.*'') ''.*''" by (rule endswith_self)
    ultimately show ?thesis unfolding e by blast
  next
    case False
    with a have e: "anchor_regex p = r" by simp
    from s False show ?thesis unfolding e by blast
  qed
qed

lemma anchor_regex_fixed:
  "(startswith r ''^'' \<or> startswith r ''.*'') \<Longrightarrow> (endswith r ''$'' \<or> endswith r ''.*'') \<Longrightarrow>
   anchor_regex r = r"
  by (auto simp: anchor_regex_def Let_def)

lemma anchor_regex_idem: "anchor_regex (anchor_regex p) = anchor_regex p"
  using anchor_regex_anchored [of p] by (intro anchor_regex_fixed) blast+

text \<open>
  C7, as the code has it. The anchoring puts \<open>.*\<close> in front of a pattern if and only if the
  pattern starts with neither \<open>^\<close> nor \<open>.*\<close>, and then puts \<open>.*\<close> behind if and only if the
  text so far ends with neither \<open>$\<close> nor \<open>.*\<close>. For a pattern that is not empty the second
  test is the same on the pattern itself; the empty pattern becomes \<open>.*\<close>. Anchoring twice
  is anchoring once, and the four sample patterns come out as the spec lists them.
\<close>

theorem regex_anchoring:
  "(q = (if startswith p ''^'' \<or> startswith p ''.*'' then [] else ''.*'') @ p \<longrightarrow>
      anchor_regex p = q @ (if endswith q ''$'' \<or> endswith q ''.*'' then [] else ''.*'')) \<and>
   (p \<noteq> [] \<longrightarrow>
      anchor_regex p =
        (if startswith p ''^'' \<or> startswith p ''.*'' then [] else ''.*'') @ p @
        (if endswith p ''$'' \<or> endswith p ''.*'' then [] else ''.*'')) \<and>
   anchor_regex [] = ''.*'' \<and>
   anchor_regex (anchor_regex p) = anchor_regex p \<and>
   anchor_regex ''abc'' = ''.*abc.*'' \<and>
   anchor_regex ''^abc'' = ''^abc.*'' \<and>
   anchor_regex ''abc$'' = ''.*abc$'' \<and>
   anchor_regex ''.*abc.*'' = ''.*abc.*'' \<and>
   QRadar_generateMapItemTypedNode f (SigmaRegularExpressionModifier p) =
     Inr (QRadar_cleanKey (Some f) @ '' imatches '' @ [sq] @
          QRadar_cleanValue (anchor_regex p) @ [sq])"
proof (intro conjI impI)
  show "anchor_regex p = q @ (if endswith q ''$'' \<or> endswith q ''.*'' then [] else ''.*'')"
    if "q = (if startswith p ''^'' \<or> startswith p ''.*'' then [] else ''.*'') @ p"
    unfolding that by (simp add: anchor_regex_def Let_def)
  show "anchor_regex p =
        (if startswith p ''^'' \<or> startswith p ''.*'' then [] else ''.*'') @ p @
        (if endswith p ''$'' \<or> endswith p ''.*'' then [] else ''.*'')" if "p \<noteq> []"
    using that by (rule anchor_regex_nonempty)
  show "anchor_regex [] = ''.*''"
    by (simp add: anchor_regex_def startswith_def endswith_def)
  show "anchor_regex (anchor_regex p) = anchor_regex p"
    by (rule anchor_regex_idem)
  show "anchor_regex ''abc'' = ''.*abc.*''"
    by (simp add: anchor_regex_def startswith_def endswith_def)
  show "anchor_regex ''^abc'' = ''^abc.*''"
    by (simp add: anchor_regex_def startswith_def endswith_def)
  show "anchor_regex ''abc$'' = ''.*abc$''"
    by (simp add: anchor_regex_def startswith_def endswith_def)
  show "anchor_regex ''.*abc.*'' = ''.*abc.*''"
    by (simp add: anchor_regex_def startswith_def endswith_def)
  show "QRadar_generateMapItemTypedNode f (SigmaRegularExpressionModifier p) =
     Inr (QRadar_cleanKey (Some f) @ '' imatches '' @ [sq] @
          QRadar_cleanValue (anchor_regex p) @ [sq])"
    by (simp add: QRadar_generateValueNode_def)
qed

theorem regex_anchoring_witness:
  "''^abc'' = (if startswith ''^abc'' ''^'' \<or> startswith ''^abc'' ''.*'' then [] else ''.*'') @ ''^abc'' \<and>
   ''abc'' \<noteq> [] \<and>
   anchor_regex ''^abc'' = ''^abc'' @ ''.*'' \<and>
   anchor_regex ''abc'' = ''.*'' @ ''abc'' @ ''.*''"
proof -
  have a: "''^abc'' = (if startswith ''^abc'' ''^'' \<or> startswith ''^abc'' ''.*'' then [] else ''.*'') @ ''^abc''"
    by (simp add: startswith_def)
  have b: "''abc'' \<noteq> []" by simp
  have c: "(if endswith ''^abc'' ''$'' \<or> endswith ''^abc'' ''.*'' then [] else ''.*'') = ''.*''"
    by (simp add: endswith_def)
  have d: "(if startswith ''abc'' ''^'' \<or> startswith ''abc'' ''.*'' then [] else ''.*'') = ''.*''"
    "(if endswith ''abc'' ''$'' \<or> endswith ''abc'' ''.*'' then [] else ''.*'') = ''.*''"
    by (simp_all add: startswith_def endswith_def)
  have 1: "anchor_regex ''^abc'' = ''^abc'' @ ''.*''"
    using regex_anchoring [where p = "''^abc''" and q = "''^abc''", THEN conjunct1, THEN mp, OF a]
    unfolding c .
  have 2: "anchor_regex ''abc'' = ''.*'' @ ''abc'' @ ''.*''"
    using regex_anchoring [where p = "''abc''", THEN conjunct2, THEN conjunct1, THEN mp, OF b]
    unfolding d .
  show ?thesis by (intro conjI) (fact a b 1 2)+
qed

theorem empty_pattern_anchored_once:
  "\<not> startswith [] ''^'' \<and> \<not> startswith [] ''.*'' \<and>
   \<not> endswith [] ''$'' \<and> \<not> endswith [] ''.*'' \<and>
   anchor_regex [] = ''.*'' \<and>
   anchor_regex [] \<noteq> ''.*'' @ [] @ ''.*'' \<and>
   QRadar_generateMapItemTypedNode ''f'' (SigmaRegularExpressionModifier []) =
     Inr (''f imatches '' @ [sq] @ ''.*'' @ [sq])"
  by (simp add: anchor_regex_def startswith_def endswith_def QRadar_generateValueNode_def
        QRadar_cleanKey_def QRadar_cleanValue_def replace_char_def)

section \<open>Proofs: aggregation\<close>

text \<open>
  C2, as the code has it. Without a group-by field, and for a function other than near,
  the epilogue is a GROUP BY on the aggregated field, cleaned as a key, followed by the
  HAVING comparison of the aggregate value with the threshold; the time frame plays no
  part. The near function is refused.
\<close>

theorem aggregation_without_group_field:
  "(groupfield agg = None \<and> aggfunc agg \<noteq> AGGFUNC_NEAR \<longrightarrow>
      QRadar_generateAggregation (Some agg) tf =
        Inr (PrefixSuffix
          (''SELECT '' @ aggfunc_notrans agg @ ''('' @ QRadar_cleanKey (aggfield agg) @
             '') as agg_val from events where'')
          ('' group by '' @ QRadar_cleanKey (aggfield agg) @ '' having agg_val '' @
             cond_op agg @ '' '' @ condition agg))) \<and>
   (aggfunc agg = AGGFUNC_NEAR \<longrightarrow>
      QRadar_generateAggregation (Some agg) tf = Inl NotImplementedError)"
  by (simp add: QRadar_generateAggregation_def aql_database_def)

theorem aggregation_without_group_field_witness:
  "groupfield count_of_eventid = None \<and> aggfunc count_of_eventid \<noteq> AGGFUNC_NEAR \<and>
   QRadar_generateAggregation (Some count_of_eventid) (Some ''30m'') =
     Inr (PrefixSuffix ''SELECT count(EventID) as agg_val from events where''
            '' group by EventID having agg_val > 5'')"
proof -
  have a: "groupfield count_of_eventid = None \<and> aggfunc count_of_eventid \<noteq> AGGFUNC_NEAR"
    by (simp add: count_of_eventid_def)
  from aggregation_without_group_field
    [where agg = count_of_eventid and tf = "Some ''30m''", THEN conjunct1, THEN mp, OF a]
  have "QRadar_generateAggregation (Some count_of_eventid) (Some ''30m'') =
     Inr (PrefixSuffix ''SELECT count(EventID) as agg_val from events where''
            '' group by EventID having agg_val > 5'')"
    by (simp add: count_of_eventid_def QRadar_cleanKey_def)
  with a show ?thesis by simp
qed

theorem epilogue_without_group_field_groups:
  "groupfield count_of_eventid = None \<and> aggfunc count_of_eventid \<noteq> AGGFUNC_NEAR \<and>
   QRadar_generateAggregation (Some count_of_eventid) None =
     Inr (PrefixSuffix ''SELECT count(EventID) as agg_val from events where''
            '' group by EventID having agg_val > 5'') \<and>
   contains '' group by EventID having agg_val > 5'' ''group by''"
  by (simp add: QRadar_generateAggregation_def count_of_eventid_def QRadar_cleanKey_def
        aql_database_def startswith_def)

lemma generateTimeframe_snoc:
  "QRadar_generateTimeframe (p @ [u]) =
     (case py_int p of None \<Rightarrow> Inl ValueError | Some d \<Rightarrow> Inr [(time_unit_name u, d)])"
  by (simp add: QRadar_generateTimeframe_def time_unit_name_def Let_def split: option.splits)

lemma generateTimeframe_empty: "QRadar_generateTimeframe [] = Inl ValueError"
  by (simp add: QRadar_generateTimeframe_def py_int_def strip_def)

text \<open>
  C6, as the code has it. The unit of a time frame is read off its last character, \<open>s\<close>,
  \<open>m\<close>, \<open>h\<close>, \<open>d\<close> for seconds, minutes, hours, days and anything else for months, and the
  text before it is parsed as an integer, a \<open>ValueError\<close> when it is none (as for the empty
  time frame). With a group-by field and a time frame other than \<open>'00'\<close> whose duration
  parses, the epilogue ends with LAST, the duration and the unit. The time frame \<open>'00'\<close>
  counts as no time frame: the epilogue then ends with the HAVING comparison.
\<close>

theorem timeframe_unit_and_window:
  "QRadar_generateTimeframe [] = Inl ValueError \<and>
   QRadar_generateTimeframe (p @ [u]) =
     (case py_int p of None \<Rightarrow> Inl ValueError | Some d \<Rightarrow> Inr [(time_unit_name u, d)]) \<and>
   time_unit_name CHR ''s'' = ''seconds'' \<and> time_unit_name CHR ''m'' = ''minutes'' \<and>
   time_unit_name CHR ''h'' = ''hours'' \<and> time_unit_name CHR ''d'' = ''days'' \<and>
   (u \<notin> set ''smhd'' \<longrightarrow> time_unit_name u = ''months'') \<and>
   (groupfield agg = Some g \<and> aggfunc agg \<noteq> AGGFUNC_NEAR \<and> p @ [u] \<noteq> ''00'' \<and>
    py_int p = Some d \<longrightarrow>
      QRadar_generateAggregation (Some agg) (Some (p @ [u])) =
        Inr (PrefixSuffix
          ('' SELECT '' @ aggfunc_notrans agg @ ''('' @ QRadar_cleanKey (aggfield agg) @
             '') as agg_val from events where '')
          ('' group by '' @ QRadar_cleanKey (Some g) @ '' having agg_val '' @
             cond_op agg @ '' '' @ condition agg @ '' LAST '' @ str_int d @ '' '' @
             time_unit_name u))) \<and>
   (groupfield agg = Some g \<and> aggfunc agg \<noteq> AGGFUNC_NEAR \<longrightarrow>
      QRadar_generateAggregation (Some agg) (Some ''00'') =
        Inr (PrefixSuffix
          ('' SELECT '' @ aggfunc_notrans agg @ ''('' @ QRadar_cleanKey (aggfield agg) @
             '') as agg_val from events where '')
          ('' group by '' @ QRadar_cleanKey (Some g) @ '' having agg_val '' @
             cond_op agg @ '' '' @ condition agg)))"
proof (intro conjI impI)
  show "QRadar_generateTimeframe [] = Inl ValueError" by (rule generateTimeframe_empty)
  show "QRadar_generateTimeframe (p @ [u]) =
     (case py_int p of None \<Rightarrow> Inl ValueError | Some d \<Rightarrow> Inr [(time_unit_name u, d)])"
    by (rule generateTimeframe_snoc)
  show "time_unit_name CHR ''s'' = ''seconds''" "time_unit_name CHR ''m'' = ''minutes''"
    "time_unit_name CHR ''h'' = ''hours''" "time_unit_name CHR ''d'' = ''days''"
    by (simp_all add: time_unit_name_def)
  show "time_unit_name u = ''months''" if "u \<notin> set ''smhd''"
    using that by (simp add: time_unit_name_def)
  show "QRadar_generateAggregation (Some agg) (Some (p @ [u])) =
        Inr (PrefixSuffix
          ('' SELECT '' @ aggfunc_notrans agg @ ''('' @ QRadar_cleanKey (aggfield agg) @
             '') as agg_val from events where '')
          ('' group by '' @ QRadar_cleanKey (Some g) @ '' having agg_val '' @
             cond_op agg @ '' '' @ condition agg @ '' LAST '' @ str_int d @ '' '' @
             time_unit_name u))"
    if "groupfield agg = Some g \<and> aggfunc agg \<noteq> AGGFUNC_NEAR \<and> p @ [u] \<noteq> ''00'' \<and>
        py_int p = Some d"
    using that
    by (simp add: QRadar_generateAggregation_def aql_database_def generateTimeframe_snoc)
  show "QRadar_generateAggregation (Some agg) (Some ''00'') =
        Inr (PrefixSuffix
          ('' SELECT '' @ aggfunc_notrans agg @ ''('' @ QRadar_cleanKey (aggfield agg) @
             '') as agg_val from events where '')
          ('' group by '' @ QRadar_cleanKey (Some g) @ '' having agg_val '' @
             cond_op agg @ '' '' @ condition agg))"
    if "groupfield agg = Some g \<and> aggfunc agg \<noteq> AGGFUNC_NEAR"
    using that by (simp add: QRadar_generateAggregation_def aql_database_def)
qed

theorem timeframe_unit_and_window_witness:
  "CHR ''y'' \<notin> set ''smhd'' \<and> time_unit_name CHR ''y'' = ''months'' \<and>
   groupfield count_by_user = Some ''user'' \<and> aggfunc count_by_user \<noteq> AGGFUNC_NEAR \<and>
   ''30'' @ [CHR ''m''] \<noteq> ''00'' \<and> py_int ''30'' = Some 30 \<and>
   QRadar_generateAggregation (Some count_by_user) (Some (''30'' @ [CHR ''m''])) =
     Inr (PrefixSuffix '' SELECT count() as agg_val from events where ''
            '' group by user having agg_val > 5 LAST 30 minutes'') \<and>
   QRadar_generateAggregation (Some count_by_user) (Some ''00'') =
     Inr (PrefixSuffix '' SELECT count() as agg_val from events where ''
            '' group by user having agg_val > 5'')"
proof -
  note t = timeframe_unit_and_window
    [where agg = count_by_user and g = "''user''" and p = "''30''" and u = "CHR ''m''" and d = 30]
  note t6 = t [THEN conjunct2, THEN conjunct2, THEN conjunct2, THEN conjunct2, THEN conjunct2,
    THEN conjunct2]
  have y: "CHR ''y'' \<notin> set ''smhd''" by simp
  have m: "time_unit_name CHR ''y'' = ''months''"
    by (rule timeframe_unit_and_window [where u = "CHR ''y''", THEN conjunct2, THEN conjunct2,
      THEN conjunct2, THEN conjunct2, THEN conjunct2, THEN conjunct2, THEN conjunct1, THEN mp])
       (rule y)
  have a: "groupfield count_by_user = Some ''user''" "aggfunc count_by_user \<noteq> AGGFUNC_NEAR"
    by (simp_all add: count_by_user_def)
  have b: "''30'' @ [CHR ''m''] \<noteq> ''00''" by simp
  have c: "py_int ''30'' = Some 30" by code_simp
  have s: "str_int 30 = ''30''" by code_simp
  have k: "QRadar_cleanKey (Some ''user'') = ''user''" "QRadar_cleanKey None = []"
    by (simp_all add: QRadar_cleanKey_def)
  from t6 [THEN conjunct2, THEN conjunct1, THEN mp] a b c
  have 1: "QRadar_generateAggregation (Some count_by_user) (Some (''30'' @ [CHR ''m''])) =
     Inr (PrefixSuffix '' SELECT count() as agg_val from events where ''
            '' group by user having agg_val > 5 LAST 30 minutes'')"
    by (simp add: s k time_unit_name_def count_by_user_def)
  from t6 [THEN conjunct2, THEN conjunct2, THEN mp] a
  have 2: "QRadar_generateAggregation (Some count_by_user) (Some ''00'') =
     Inr (PrefixSuffix '' SELECT count() as agg_val from events where ''
            '' group by user having agg_val > 5'')"
    by (simp add: k count_by_user_def)
  show ?thesis by (intro conjI) (fact y m a b c 1 2)+
qed

theorem timeframe_00_has_no_window:
  "QRadar_generateTimeframe ''00'' = Inr [(''months'', 0)] \<and>
   groupfield count_by_user = Some ''user'' \<and>
   QRadar_generateAggregation (Some count_by_user) (Some ''00'') =
     Inr (PrefixSuffix '' SELECT count() as agg_val from events where ''
            '' group by user having agg_val > 5'') \<and>
   \<not> contains '' group by user having agg_val > 5'' ''LAST''"
  by code_simp

section \<open>Proofs: lists of values\<close>

lemma contains_append: "contains (q @ p) p"
proof (induction q)
  case Nil
  show ?case by (cases p) (simp_all add: startswith_def)
next
  case (Cons c q)
  then show ?case by simp
qed

lemma endswith_contains: "endswith s p \<Longrightarrow> contains s p"
proof -
  assume "endswith s p"
  then have "s = take (length s - length p) s @ p"
    by (metis append_take_drop_id endswith_def)
  then show ?thesis using contains_append [of "take (length s - length p) s" p] by simp
qed

text \<open>
  C8, as the code has it. Each item of a list is rendered by the first test it passes: an
  item that is \<open>None\<close> gives the null test on the bare field name; a string that contains
  \<open>/16\<close> or \<open>/24\<close>, under a field name that contains \<open>ip\<close>, gives the INCIDR expression, so
  in particular a CIDR block with one of these two prefix lengths; otherwise a string that
  contains \<open>*\<close> gives an ILIKE expression with every \<open>*\<close> turned into \<open>%\<close>; anything else, a
  number included, gives an equality. The clauses are joined with \<open>or\<close> in the order of
  the list, in parentheses.
\<close>

theorem list_items_by_classification:
  "QRadar_generateMapItemListNode key items =
     ''('' @ join '' or '' (map (QRadar_list_item key) items) @ '')'' \<and>
   QRadar_list_item key None = key @ '' is null'' \<and>
   (contains key ''ip'' \<and> (contains s ''/16'' \<or> contains s ''/24'') \<longrightarrow>
      QRadar_list_item key (Some (PyStr s)) =
        ''INCIDR('' @ [sq] @ QRadar_cleanValue s @ [sq] @ '', '' @ QRadar_cleanKey (Some key) @ '')'') \<and>
   (is_cidr_block s \<and> (endswith s ''/16'' \<or> endswith s ''/24'') \<and> contains key ''ip'' \<longrightarrow>
      QRadar_list_item key (Some (PyStr s)) =
        ''INCIDR('' @ [sq] @ QRadar_cleanValue s @ [sq] @ '', '' @ QRadar_cleanKey (Some key) @ '')'') \<and>
   (\<not> (contains key ''ip'' \<and> (contains s ''/16'' \<or> contains s ''/24'')) \<and> CHR ''*'' \<in> set s \<longrightarrow>
      QRadar_list_item key (Some (PyStr s)) =
        QRadar_cleanKey (Some key) @ '' ilike '' @ [sq] @
          QRadar_cleanValue (replace_char CHR ''*'' ''%'' s) @ [sq]) \<and>
   (\<not> (contains key ''ip'' \<and> (contains s ''/16'' \<or> contains s ''/24'')) \<and> CHR ''*'' \<notin> set s \<longrightarrow>
      QRadar_list_item key (Some (PyStr s)) =
        QRadar_cleanKey (Some key) @ '' = '' @ [sq] @ QRadar_cleanValue s @ [sq]) \<and>
   QRadar_list_item key (Some (PyInt i)) =
     QRadar_cleanKey (Some key) @ '' = '' @ [sq] @ QRadar_cleanValue (str_int i) @ [sq]"
proof (intro conjI impI)
  show "QRadar_generateMapItemListNode key items =
     ''('' @ join '' or '' (map (QRadar_list_item key) items) @ '')''"
    by (simp add: QRadar_generateMapItemListNode_def)
  show "QRadar_list_item key None = key @ '' is null''"
    by (simp add: QRadar_list_item_def)
  show "QRadar_list_item key (Some (PyStr s)) =
        ''INCIDR('' @ [sq] @ QRadar_cleanValue s @ [sq] @ '', '' @ QRadar_cleanKey (Some key) @ '')''"
    if "contains key ''ip'' \<and> (contains s ''/16'' \<or> contains s ''/24'')"
    using that by (simp add: QRadar_list_item_def QRadar_generateValueNode_def)
  show "QRadar_list_item key (Some (PyStr s)) =
        ''INCIDR('' @ [sq] @ QRadar_cleanValue s @ [sq] @ '', '' @ QRadar_cleanKey (Some key) @ '')''"
    if "is_cidr_block s \<and> (endswith s ''/16'' \<or> endswith s ''/24'') \<and> contains key ''ip''"
  proof -
    from that have "contains s ''/16'' \<or> contains s ''/24''"
      by (blast intro: endswith_contains)
    with that show ?thesis by (simp add: QRadar_list_item_def QRadar_generateValueNode_def)
  qed
  show "QRadar_list_item key (Some (PyStr s)) =
        QRadar_cleanKey (Some key) @ '' ilike '' @ [sq] @
          QRadar_cleanValue (replace_char CHR ''*'' ''%'' s) @ [sq]"
    if "\<not> (contains key ''ip'' \<and> (contains s ''/16'' \<or> contains s ''/24'')) \<and> CHR ''*'' \<in> set s"
    using that by (simp add: QRadar_list_item_def QRadar_generateValueNode_def)
  show "QRadar_list_item key (Some (PyStr s)) =
        QRadar_cleanKey (Some key) @ '' = '' @ [sq] @ QRadar_cleanValue s @ [sq]"
    if "\<not> (contains key ''ip'' \<and> (contains s ''/16'' \<or> contains s ''/24'')) \<and> CHR ''*'' \<notin> set s"
    using that by (simp add: QRadar_list_item_def QRadar_generateValueNode_def)
  show "QRadar_list_item key (Some (PyInt i)) =
     QRadar_cleanKey (Some key) @ '' = '' @ [sq] @ QRadar_cleanValue (str_int i) @ [sq]"
    by (simp add: QRadar_list_item_def QRadar_generateValueNode_def)
qed

theorem list_items_by_classification_witness:
  "contains ''src_ip'' ''ip'' \<and> contains ''10.0.0.0/16'' ''/16'' \<and>
   is_cidr_block ''10.0.0.0/16'' \<and> endswith ''10.0.0.0/16'' ''/16'' \<and>
   QRadar_list_item ''src_ip'' (Some (PyStr ''10.0.0.0/16'')) =
     ''INCIDR('' @ [sq] @ ''10.0.0.0/16'' @ [sq] @ '', src_ip)'' \<and>
   \<not> (contains ''src_ip'' ''ip'' \<and> (contains ''10.0.*'' ''/16'' \<or> contains ''10.0.*'' ''/24'')) \<and>
   CHR ''*'' \<in> set ''10.0.*'' \<and>
   QRadar_list_item ''src_ip'' (Some (PyStr ''10.0.*'')) =
     ''src_ip ilike '' @ [sq] @ ''10.0.%'' @ [sq] \<and>
   \<not> (contains ''src_ip'' ''ip'' \<and> (contains ''10.0.0.5'' ''/16'' \<or> contains ''10.0.0.5'' ''/24'')) \<and>
   CHR ''*'' \<notin> set ''10.0.0.5'' \<and>
   QRadar_list_item ''src_ip'' (Some (PyStr ''10.0.0.5'')) =
     ''src_ip = '' @ [sq] @ ''10.0.0.5'' @ [sq] \<and>
   QRadar_generateMapItemListNode ''src_ip''
       [Some (PyStr ''10.0.0.0/16''), Some (PyStr ''10.0.0.5'')] =
     ''(INCIDR('' @ [sq] @ ''10.0.0.0/16'' @ [sq] @ '', src_ip) or src_ip = '' @ [sq] @
       ''10.0.0.5'' @ [sq] @ '')''"
proof -
  note t = list_items_by_classification [where key = "''src_ip''"]
  note ta = list_items_by_classification [where key = "''src_ip''" and s = "''10.0.0.0/16''"]
  note tb = list_items_by_classification [where key = "''src_ip''" and s = "''10.0.*''"]
  note tc = list_items_by_classification [where key = "''src_ip''" and s = "''10.0.0.5''"]
  have k: "QRadar_cleanKey (Some ''src_ip'') = ''src_ip''" by (simp add: QRadar_cleanKey_def)
  have v: "QRadar_cleanValue ''10.0.0.0/16'' = ''10.0.0.0/16''"
    "QRadar_cleanValue (replace_char CHR ''*'' ''%'' ''10.0.*'') = ''10.0.%''"
    "QRadar_cleanValue ''10.0.0.5'' = ''10.0.0.5''" by code_simp+
  have a: "contains ''src_ip'' ''ip''" "contains ''10.0.0.0/16'' ''/16''"
    "is_cidr_block ''10.0.0.0/16''" "endswith ''10.0.0.0/16'' ''/16''" by code_simp+
  have b: "\<not> (contains ''src_ip'' ''ip'' \<and> (contains ''10.0.*'' ''/16'' \<or> contains ''10.0.*'' ''/24''))"
    "CHR ''*'' \<in> set ''10.0.*''" by code_simp+
  have c: "\<not> (contains ''src_ip'' ''ip'' \<and> (contains ''10.0.0.5'' ''/16'' \<or> contains ''10.0.0.5'' ''/24''))"
    "CHR ''*'' \<notin> set ''10.0.0.5''" by code_simp+
  have ha: "contains ''src_ip'' ''ip'' \<and>
      (contains ''10.0.0.0/16'' ''/16'' \<or> contains ''10.0.0.0/16'' ''/24'')"
    using a by blast
  have hb: "is_cidr_block ''10.0.0.0/16'' \<and>
      (endswith ''10.0.0.0/16'' ''/16'' \<or> endswith ''10.0.0.0/16'' ''/24'') \<and>
      contains ''src_ip'' ''ip''"
    using a by blast
  have hc: "\<not> (contains ''src_ip'' ''ip'' \<and> (contains ''10.0.*'' ''/16'' \<or> contains ''10.0.*'' ''/24'')) \<and>
      CHR ''*'' \<in> set ''10.0.*''"
    using b by blast
  have hd: "\<not> (contains ''src_ip'' ''ip'' \<and> (contains ''10.0.0.5'' ''/16'' \<or> contains ''10.0.0.5'' ''/24'')) \<and>
      CHR ''*'' \<notin> set ''10.0.0.5''"
    using c by blast
  have 1: "QRadar_list_item ''src_ip'' (Some (PyStr ''10.0.0.0/16'')) =
     ''INCIDR('' @ [sq] @ ''10.0.0.0/16'' @ [sq] @ '', src_ip)''"
    using ta [THEN conjunct2, THEN conjunct2, THEN conjunct1, THEN mp, OF ha]
    by (simp add: k v)
  have i1: "QRadar_list_item ''src_ip'' (Some (PyStr ''10.0.0.0/16'')) =
     ''INCIDR('' @ [sq] @ ''10.0.0.0/16'' @ [sq] @ '', src_ip)''"
    using ta [THEN conjunct2, THEN conjunct2, THEN conjunct2, THEN conjunct1, THEN mp, OF hb]
    by (simp add: k v)
  have 2: "QRadar_list_item ''src_ip'' (Some (PyStr ''10.0.*'')) =
     ''src_ip ilike '' @ [sq] @ ''10.0.%'' @ [sq]"
    using tb [THEN conjunct2, THEN conjunct2, THEN conjunct2, THEN conjunct2, THEN conjunct1,
      THEN mp, OF hc]
    by (simp add: k v)
  have 3: "QRadar_list_item ''src_ip'' (Some (PyStr ''10.0.0.5'')) =
     ''src_ip = '' @ [sq] @ ''10.0.0.5'' @ [sq]"
    using tc [THEN conjunct2, THEN conjunct2, THEN conjunct2, THEN conjunct2, THEN conjunct2,
      THEN conjunct1, THEN mp, OF hd]
    by (simp add: k v)
  from t [where items = "[Some (PyStr ''10.0.0.0/16''), Some (PyStr ''10.0.0.5'')]", THEN conjunct1]
  have 4: "QRadar_generateMapItemListNode ''src_ip''
       [Some (PyStr ''10.0.0.0/16''), Some (PyStr ''10.0.0.5'')] =
     ''(INCIDR('' @ [sq] @ ''10.0.0.0/16'' @ [sq] @ '', src_ip) or src_ip = '' @ [sq] @
       ''10.0.0.5'' @ [sq] @ '')''"
    by (simp add: 1 3)
  show ?thesis by (intro conjI) (fact a b c 1 2 3 4)+
qed

theorem cidr_block_of_other_length_is_equality:
  "is_cidr_block ''10.0.0.0/8'' \<and> contains ''src_ip'' ''ip'' \<and>
   QRadar_generateMapItemListNode ''src_ip'' [Some (PyStr ''10.0.0.0/8'')] =
     ''(src_ip = '' @ [sq] @ ''10.0.0.0/8'' @ [sq] @ '')''"
  by code_simp

section \<open>Proofs: wildcards\<close>

lemma double_append:
  "a \<noteq> [] \<Longrightarrow> last a \<noteq> bs \<Longrightarrow>
   double_single_backslashes p (a @ b) =
     double_single_backslashes p a @ double_single_backslashes False b"
proof (induction a arbitrary: p)
  case Nil
  then show ?case by simp
next
  case (Cons c a)
  show ?case
  proof (cases "a = []")
    case True
    with Cons.prems show ?thesis by simp
  next
    case False
    with Cons.prems have l: "last a \<noteq> bs" by simp
    from False have h: "(case a @ b of [] \<Rightarrow> True | d # x \<Rightarrow> d \<notin> {bs, CHR ''*'', CHR ''?''}) =
        (case a of [] \<Rightarrow> True | d # x \<Rightarrow> d \<notin> {bs, CHR ''*'', CHR ''?''})"
      by (cases a) simp_all
    show ?thesis
      by (simp add: h Cons.IH [OF False l])
  qed
qed

lemma double_last:
  "a \<noteq> [] \<Longrightarrow> last a \<noteq> bs \<Longrightarrow>
   double_single_backslashes p a \<noteq> [] \<and> last (double_single_backslashes p a) = last a"
proof (induction a arbitrary: p)
  case Nil
  then show ?case by simp
next
  case (Cons c a)
  show ?case
  proof (cases "a = []")
    case True
    with Cons.prems show ?thesis by simp
  next
    case False
    with Cons.prems have l: "last a \<noteq> bs" by simp
    from False show ?thesis
      by (simp add: Cons.IH [OF False l])
  qed
qed

lemma double_run_True:
  "g \<noteq> bs \<Longrightarrow>
   double_single_backslashes True (replicate n bs @ g # b) =
     replicate n bs @ g # double_single_backslashes False b"
  by (induction n) simp_all

lemma double_run_glyph:
  assumes "g = CHR ''*'' \<or> g = CHR ''?''"
  shows "double_single_backslashes False (replicate n bs @ g # b) =
           replicate n bs @ g # double_single_backslashes False b"
proof (cases n)
  case 0
  with assms show ?thesis by auto
next
  case (Suc m)
  from assms have g: "g \<noteq> bs" by auto
  have "double_single_backslashes False (bs # replicate m bs @ g # b) =
          bs # double_single_backslashes True (replicate m bs @ g # b)"
    using assms by (cases m) auto
  with Suc g show ?thesis by (simp add: double_run_True)
qed

lemma replace_char_append:
  "replace_char c r (a @ b) = replace_char c r a @ replace_char c r b"
  by (simp add: replace_char_def)

lemma replace_char_absent: "c \<notin> set a \<Longrightarrow> replace_char c r a = a"
  by (induction a) (auto simp: replace_char_def)

lemma replace_char_last:
  "a \<noteq> [] \<Longrightarrow> replace_char c [bs, c] a \<noteq> [] \<and> last (replace_char c [bs, c] a) = last a"
proof (induction a rule: rev_induct)
  case Nil
  then show ?case by simp
next
  case (snoc x xs)
  show ?case by (simp add: replace_char_def)
qed

lemma takeWhile_run: "c \<noteq> bs \<Longrightarrow> takeWhile (\<lambda>x. x = bs) (replicate n bs @ c # b) = replicate n bs"
  by (induction n) simp_all

lemma dropWhile_run: "c \<noteq> bs \<Longrightarrow> dropWhile (\<lambda>x. x = bs) (replicate n bs @ c # b) = c # b"
  by (induction n) simp_all

lemma translate_run_True:
  "c \<noteq> bs \<Longrightarrow>
   translate_glyph g r True (replicate n bs @ c # b) =
     replicate n bs @ c # translate_glyph g r False b"
  by (induction n) simp_all

lemma translate_run_nomatch:
  assumes "c \<noteq> bs" and "odd n \<or> c \<noteq> g"
  shows "translate_glyph g r False (replicate n bs @ c # b) =
           replicate n bs @ c # translate_glyph g r False b"
proof (cases n)
  case 0
  with assms show ?thesis by simp
next
  case (Suc m)
  have t: "takeWhile (\<lambda>x. x = bs) (bs # replicate m bs @ c # b) = replicate (Suc m) bs"
    and d: "dropWhile (\<lambda>x. x = bs) (bs # replicate m bs @ c # b) = c # b"
    using takeWhile_run [OF assms(1), of "Suc m" b] dropWhile_run [OF assms(1), of "Suc m" b]
    by simp_all
  have "translate_glyph g r False (bs # replicate m bs @ c # b) =
          bs # translate_glyph g r True (replicate m bs @ c # b)"
    using assms(2) Suc
    by (simp only: translate_glyph.simps Let_def t d) auto
  with Suc assms(1) show ?thesis by (simp add: translate_run_True)
qed

lemma translate_run_match:
  assumes "g \<noteq> bs" and "even n"
  shows "translate_glyph g r False (replicate n bs @ g # b) =
           (if n = 0 then [] else [bs, bs]) @ r # translate_glyph g r False b"
proof (cases n)
  case 0
  with assms show ?thesis by simp
next
  case (Suc m)
  have t: "takeWhile (\<lambda>x. x = bs) (bs # replicate m bs @ g # b) = replicate (Suc m) bs"
    and d: "dropWhile (\<lambda>x. x = bs) (bs # replicate m bs @ g # b) = g # b"
    using takeWhile_run [OF assms(1), of "Suc m" b] dropWhile_run [OF assms(1), of "Suc m" b]
    by simp_all
  have "translate_glyph g r False (bs # replicate m bs @ g # b) =
          [bs, bs] @ r # translate_glyph g r False b"
    using assms(2) Suc
    by (simp only: translate_glyph.simps Let_def t d) auto
  with Suc show ?thesis by simp
qed

lemma run_within:
  assumes "s \<noteq> []" and "last s \<noteq> bs"
  shows "takeWhile (\<lambda>x. x = bs) (s @ b) = takeWhile (\<lambda>x. x = bs) s"
    and "dropWhile (\<lambda>x. x = bs) (s @ b) = dropWhile (\<lambda>x. x = bs) s @ b"
    and "dropWhile (\<lambda>x. x = bs) s \<noteq> []"
    and "last (dropWhile (\<lambda>x. x = bs) s) = last s"
proof -
  from assms have m: "last s \<in> set s" by simp
  with assms(2) show "takeWhile (\<lambda>x. x = bs) (s @ b) = takeWhile (\<lambda>x. x = bs) s"
    by (intro takeWhile_append1 [of "last s"]) simp_all
  from m assms(2) show "dropWhile (\<lambda>x. x = bs) (s @ b) = dropWhile (\<lambda>x. x = bs) s @ b"
    by (intro dropWhile_append1 [of "last s"]) simp_all
  from m assms(2) show d: "dropWhile (\<lambda>x. x = bs) s \<noteq> []"
    by (auto simp: dropWhile_eq_Nil_conv)
  have "s = takeWhile (\<lambda>x. x = bs) s @ dropWhile (\<lambda>x. x = bs) s" by simp
  then have "last s = last (takeWhile (\<lambda>x. x = bs) s @ dropWhile (\<lambda>x. x = bs) s)" by simp
  also from d have "\<dots> = last (dropWhile (\<lambda>x. x = bs) s)" by (rule last_appendR)
  finally show "last (dropWhile (\<lambda>x. x = bs) s) = last s" by simp
qed

lemma translate_unfold:
  "s \<noteq> [] \<Longrightarrow>
   translate_glyph g r p s =
     (if \<not> p \<and> even (length (takeWhile (\<lambda>x. x = bs) s)) \<and>
         dropWhile (\<lambda>x. x = bs) s \<noteq> [] \<and> hd (dropWhile (\<lambda>x. x = bs) s) = g
      then (if takeWhile (\<lambda>x. x = bs) s = [] then [] else [bs, bs]) @
           r # translate_glyph g r False (tl (dropWhile (\<lambda>x. x = bs) s))
      else hd s # translate_glyph g r (hd s = bs) (tl s))"
  by (cases s) (simp_all add: Let_def)

lemma translate_append:
  "(a = [] \<longrightarrow> \<not> p) \<Longrightarrow> (a \<noteq> [] \<longrightarrow> last a \<noteq> bs) \<Longrightarrow>
   translate_glyph g r p (a @ b) = translate_glyph g r p a @ translate_glyph g r False b"
proof (induction "length a" arbitrary: a p rule: less_induct)
  case less
  show ?case
  proof (cases "a = []")
    case True
    with less.prems show ?thesis by simp
  next
    case False
    with less.prems have l: "last a \<noteq> bs" by simp
    note w = run_within(1,2) [OF False l, of b] run_within(3,4) [OF False l]
    let ?run = "takeWhile (\<lambda>x. x = bs) a"
    let ?rest = "dropWhile (\<lambda>x. x = bs) a"
    from False have ab: "a @ b \<noteq> []" by simp
    have hd: "hd (?rest @ b) = hd ?rest" using w(3) by simp
    have tl: "tl (?rest @ b) = tl ?rest @ b" using w(3) by simp
    have nee: "(?rest @ b \<noteq> []) = (?rest \<noteq> [])" using w(3) by simp
    have hda: "hd (a @ b) = hd a" and tla: "tl (a @ b) = tl a @ b" using False by simp_all
    show ?thesis
    proof (cases "\<not> p \<and> even (length ?run) \<and> ?rest \<noteq> [] \<and> hd ?rest = g")
      case True
      have e: "tl ?rest \<noteq> [] \<longrightarrow> last (tl ?rest) \<noteq> bs"
        using w(4) l by (simp add: last_tl)
      have "length (tl ?rest) < length a"
        using w(3) length_dropWhile_le [of "\<lambda>x. x = bs" a] by (cases ?rest) simp_all
      from less.hyps [OF this _ e, of False]
      have ih: "translate_glyph g r False (tl ?rest @ b) =
          translate_glyph g r False (tl ?rest) @ translate_glyph g r False b"
        by simp
      have 1: "translate_glyph g r p (a @ b) =
          (if ?run = [] then [] else [bs, bs]) @ r # translate_glyph g r False (tl ?rest @ b)"
        unfolding translate_unfold [OF ab] w(1) w(2) hd tl nee if_P [OF True] ..
      have 2: "translate_glyph g r p a =
          (if ?run = [] then [] else [bs, bs]) @ r # translate_glyph g r False (tl ?rest)"
        unfolding translate_unfold [OF False] if_P [OF True] ..
      show ?thesis unfolding 1 2 ih by simp
    next
      case c: False
      have e1: "tl a = [] \<longrightarrow> \<not> (hd a = bs)" using l False by (cases a) auto
      have e2: "tl a \<noteq> [] \<longrightarrow> last (tl a) \<noteq> bs" using l False by (simp add: last_tl)
      have "length (tl a) < length a" using False by (cases a) simp_all
      from less.hyps [OF this e1 e2]
      have ih: "translate_glyph g r (hd a = bs) (tl a @ b) =
          translate_glyph g r (hd a = bs) (tl a) @ translate_glyph g r False b" .
      have 1: "translate_glyph g r p (a @ b) = hd a # translate_glyph g r (hd a = bs) (tl a @ b)"
        unfolding translate_unfold [OF ab] w(1) w(2) hd tl nee hda tla if_not_P [OF c] ..
      have 2: "translate_glyph g r p a = hd a # translate_glyph g r (hd a = bs) (tl a)"
        unfolding translate_unfold [OF False] if_not_P [OF c] ..
      show ?thesis unfolding 1 2 ih by simp
    qed
  qed
qed

lemma translate_last:
  "r \<noteq> bs \<Longrightarrow> a \<noteq> [] \<Longrightarrow> last a \<noteq> bs \<Longrightarrow>
   translate_glyph g r p a \<noteq> [] \<and> last (translate_glyph g r p a) \<noteq> bs"
proof (induction "length a" arbitrary: a p rule: less_induct)
  case less
  note ne = \<open>a \<noteq> []\<close> and l = \<open>last a \<noteq> bs\<close>
  note w = run_within(3,4) [OF ne l]
  let ?run = "takeWhile (\<lambda>x. x = bs) a"
  let ?rest = "dropWhile (\<lambda>x. x = bs) a"
  show ?case
  proof (cases "\<not> p \<and> even (length ?run) \<and> ?rest \<noteq> [] \<and> hd ?rest = g")
    case True
    have 2: "translate_glyph g r p a =
        (if ?run = [] then [] else [bs, bs]) @ r # translate_glyph g r False (tl ?rest)"
      unfolding translate_unfold [OF ne] if_P [OF True] ..
    show ?thesis
    proof (cases "tl ?rest = []")
      case True
      then show ?thesis unfolding 2 using less.prems(1) by simp
    next
      case False
      have e: "last (tl ?rest) \<noteq> bs" using w(2) l False by (simp add: last_tl)
      have "length (tl ?rest) < length a"
        using w(1) length_dropWhile_le [of "\<lambda>x. x = bs" a] by (cases ?rest) simp_all
      from less.hyps [OF this less.prems(1) False e, of False]
      show ?thesis unfolding 2 by simp
    qed
  next
    case c: False
    have 2: "translate_glyph g r p a = hd a # translate_glyph g r (hd a = bs) (tl a)"
      unfolding translate_unfold [OF ne] if_not_P [OF c] ..
    show ?thesis
    proof (cases "tl a = []")
      case True
      with ne l have "hd a \<noteq> bs" by (cases a) auto
      with True show ?thesis unfolding 2 by simp
    next
      case False
      have e: "last (tl a) \<noteq> bs" using l False by (simp add: last_tl)
      have "length (tl a) < length a" using ne by (cases a) simp_all
      from less.hyps [OF this less.prems(1) False e, of "hd a = bs"]
      show ?thesis unfolding 2 by simp
    qed
  qed
qed

lemma double_append_ok:
  "a = [] \<or> last a \<noteq> bs \<Longrightarrow>
   double_single_backslashes False (a @ b) =
     double_single_backslashes False a @ double_single_backslashes False b"
  by (cases "a = []") (simp_all add: double_append)

lemma double_ok:
  "a = [] \<or> last a \<noteq> bs \<Longrightarrow>
   double_single_backslashes False a = [] \<or> last (double_single_backslashes False a) \<noteq> bs"
  by (cases "a = []") (simp_all add: double_last)

lemma replace_char_ok:
  "a = [] \<or> last a \<noteq> bs \<Longrightarrow>
   replace_char c [bs, c] a = [] \<or> last (replace_char c [bs, c] a) \<noteq> bs"
  by (cases "a = []") (simp_all add: replace_char_last, simp add: replace_char_def)

lemma translate_append_ok:
  "a = [] \<or> last a \<noteq> bs \<Longrightarrow>
   translate_glyph g r False (a @ b) = translate_glyph g r False a @ translate_glyph g r False b"
  by (rule translate_append) auto

lemma translate_ok:
  "r \<noteq> bs \<Longrightarrow> a = [] \<or> last a \<noteq> bs \<Longrightarrow>
   translate_glyph g r False a = [] \<or> last (translate_glyph g r False a) \<noteq> bs"
  by (cases "a = []") (simp_all add: translate_last)

lemma cleanValue_pipeline:
  "uberAgent_cleanValue (PyStr s) =
     translate_glyph CHR ''?'' CHR ''_'' False
       (translate_glyph CHR ''*'' CHR ''%'' False
         (replace_char dq [bs, dq]
           (replace_char CHR ''%'' [bs, CHR ''%'']
             (replace_char CHR ''_'' [bs, CHR ''_''] (double_single_backslashes False s)))))"
  by (simp add: Let_def)

lemma replace_char_Cons:
  "replace_char c r (x # xs) = (if x = c then r else [x]) @ replace_char c r xs"
  by (simp add: replace_char_def)

lemma replace_char_replicate: "c \<noteq> x \<Longrightarrow> replace_char c r (replicate n x) = replicate n x"
  by (induction n) (simp_all add: replace_char_def)

lemma replace_char_run:
  "c \<noteq> bs \<Longrightarrow> c \<noteq> g \<Longrightarrow>
   replace_char c r (a @ replicate n bs @ g # b) =
     replace_char c r a @ replicate n bs @ g # replace_char c r b"
  by (simp add: replace_char_append replace_char_replicate replace_char_Cons)

lemma escapes_run:
  assumes "g = CHR ''*'' \<or> g = CHR ''?''"
  shows "replace_char dq [bs, dq]
           (replace_char CHR ''%'' [bs, CHR ''%'']
             (replace_char CHR ''_'' [bs, CHR ''_''] (a @ replicate n bs @ g # b))) =
         replace_char dq [bs, dq]
           (replace_char CHR ''%'' [bs, CHR ''%''] (replace_char CHR ''_'' [bs, CHR ''_''] a)) @
         replicate n bs @ g #
         replace_char dq [bs, dq]
           (replace_char CHR ''%'' [bs, CHR ''%''] (replace_char CHR ''_'' [bs, CHR ''_''] b))"
proof -
  from assms have g: "CHR ''_'' \<noteq> g" "CHR ''%'' \<noteq> g" "dq \<noteq> g" by auto
  show ?thesis by (simp add: replace_char_run g)
qed

lemma cleanValue_glyph:
  assumes pre: "pre = [] \<or> last pre \<noteq> bs"
    and g: "g = CHR ''*'' \<and> t = CHR ''%'' \<or> g = CHR ''?'' \<and> t = CHR ''_''"
  shows "uberAgent_cleanValue (PyStr (pre @ replicate n bs @ g # post)) =
           uberAgent_cleanValue (PyStr pre) @
           (if even n then replicate (min n 2) bs @ [t] else replicate n bs @ [g]) @
           uberAgent_cleanValue (PyStr post)"
proof -
  define esc where "esc = (\<lambda>s. replace_char dq [bs, dq]
           (replace_char CHR ''%'' [bs, CHR ''%''] (replace_char CHR ''_'' [bs, CHR ''_''] s)))"
  define A where "A = esc (double_single_backslashes False pre)"
  define B where "B = esc (double_single_backslashes False post)"
  define A' where "A' = translate_glyph CHR ''*'' CHR ''%'' False A"
  define B' where "B' = translate_glyph CHR ''*'' CHR ''%'' False B"
  from g have g': "g = CHR ''*'' \<or> g = CHR ''?''" by blast
  have cv: "\<And>s. uberAgent_cleanValue (PyStr s) =
      translate_glyph CHR ''?'' CHR ''_'' False
        (translate_glyph CHR ''*'' CHR ''%'' False (esc (double_single_backslashes False s)))"
    unfolding esc_def by (rule cleanValue_pipeline)
  have okA: "A = [] \<or> last A \<noteq> bs"
    unfolding A_def esc_def
    by (intro replace_char_ok double_ok pre)
  have okA': "A' = [] \<or> last A' \<noteq> bs"
    unfolding A'_def using okA by (intro translate_ok) simp_all
  have 1: "double_single_backslashes False (pre @ replicate n bs @ g # post) =
      double_single_backslashes False pre @ replicate n bs @ g #
      double_single_backslashes False post"
    by (simp add: double_append_ok [OF pre] double_run_glyph [OF g'])
  have 2: "esc (double_single_backslashes False (pre @ replicate n bs @ g # post)) =
      A @ replicate n bs @ g # B"
    unfolding 1 A_def B_def esc_def by (rule escapes_run [OF g'])
  define m where "m = min n 2"
  have m: "even n \<Longrightarrow> (if n = 0 then [] else [bs, bs]) = replicate m bs"
  proof (cases "n = 0")
    case True
    then show ?thesis by (simp add: m_def)
  next
    case False
    assume "even n"
    with False have "n \<noteq> 1" "n \<noteq> 0" by auto
    then have "2 \<le> n" by arith
    then have "m = 2" by (simp add: m_def)
    with False show ?thesis by (simp add: numeral_2_eq_2)
  qed
  have 3: "translate_glyph CHR ''*'' CHR ''%'' False (A @ replicate n bs @ g # B) =
      A' @ (if g = CHR ''*'' \<and> even n then replicate m bs @ [CHR ''%'']
            else replicate n bs @ [g]) @ B'"
  proof (cases "g = CHR ''*'' \<and> even n")
    case True
    then show ?thesis
      unfolding A'_def B'_def
      by (simp add: translate_append_ok [OF okA] translate_run_match m)
  next
    case False
    with g' have "odd n \<or> g \<noteq> CHR ''*''" by blast
    moreover from g' have "g \<noteq> bs" by auto
    ultimately show ?thesis
      using False unfolding A'_def B'_def
      by (simp add: translate_append_ok [OF okA] translate_run_nomatch)
  qed
  have 4: "translate_glyph CHR ''?'' CHR ''_'' False
      (A' @ (if g = CHR ''*'' \<and> even n then replicate m bs @ [CHR ''%'']
            else replicate n bs @ [g]) @ B') =
      translate_glyph CHR ''?'' CHR ''_'' False A' @
      (if even n then replicate m bs @ [t] else replicate n bs @ [g]) @
      translate_glyph CHR ''?'' CHR ''_'' False B'"
  proof (cases "g = CHR ''*''")
    case True
    with g have t: "t = CHR ''%''" by auto
    show ?thesis
      using True unfolding t
      by (simp add: translate_append_ok [OF okA'] translate_run_nomatch)
  next
    case False
    with g have q: "g = CHR ''?''" and t: "t = CHR ''_''" by auto
    show ?thesis
    proof (cases "even n")
      case True
      then show ?thesis
        unfolding q t
        by (simp add: translate_append_ok [OF okA'] translate_run_match m)
    next
      case False
      then show ?thesis
        unfolding q t
        by (simp add: translate_append_ok [OF okA'] translate_run_nomatch)
    qed
  qed
  have 5: "uberAgent_cleanValue (PyStr pre) = translate_glyph CHR ''?'' CHR ''_'' False A'"
    unfolding cv A'_def A_def ..
  have 6: "uberAgent_cleanValue (PyStr post) = translate_glyph CHR ''?'' CHR ''_'' False B'"
    unfolding cv B'_def B_def ..
  have "uberAgent_cleanValue (PyStr (pre @ replicate n bs @ g # post)) =
      translate_glyph CHR ''?'' CHR ''_'' False
        (translate_glyph CHR ''*'' CHR ''%'' False (A @ replicate n bs @ g # B))"
    unfolding cv 2 ..
  also have "\<dots> = translate_glyph CHR ''?'' CHR ''_'' False
      (A' @ (if g = CHR ''*'' \<and> even n then replicate m bs @ [CHR ''%'']
            else replicate n bs @ [g]) @ B')"
    unfolding 3 ..
  also have "\<dots> = translate_glyph CHR ''?'' CHR ''_'' False A' @
      (if even n then replicate m bs @ [t] else replicate n bs @ [g]) @
      translate_glyph CHR ''?'' CHR ''_'' False B'"
    by (rule 4)
  finally show ?thesis unfolding 5 6 m_def .
qed

lemma QRadar_star_text:
  "QRadar_cleanValue (replace_char CHR ''*'' ''%'' v) =
     concat (map (\<lambda>c. if c = CHR ''*'' then ''%'' else if c = sq then [bs, sq] else [c]) v)"
  by (induction v) (simp_all add: QRadar_cleanValue_def replace_char_def)

lemma QRadar_plain_text:
  "QRadar_cleanValue v = concat (map (\<lambda>c. if c = sq then [bs, sq] else [c]) v)"
  by (simp add: QRadar_cleanValue_def replace_char_def)

text \<open>
  C4, as the code has it. In \<open>cleanValue\<close> of the uberAgent backend, a \<open>*\<close> or \<open>?\<close> that
  stands after a run of \<open>n\<close> backslashes (the text before the run not ending in a
  backslash) is translated, to \<open>%\<close> or \<open>_\<close>, exactly when \<open>n\<close> is even, the run being cut
  to one pair when it is longer; when \<open>n\<close> is odd the run and the glyph stay as they are.
  The text before and the text after are cleaned on their own. The QRadar backend turns
  every \<open>*\<close> of a string into \<open>%\<close>, whatever stands before it, renders the match with
  \<open>ilike\<close>, and leaves every \<open>?\<close> as it is.
\<close>

theorem wildcard_translation:
  "(pre = [] \<or> last pre \<noteq> bs \<longrightarrow>
      uberAgent_cleanValue (PyStr (pre @ replicate n bs @ CHR ''*'' # post)) =
        uberAgent_cleanValue (PyStr pre) @
        (if even n then replicate (min n 2) bs @ ''%'' else replicate n bs @ ''*'') @
        uberAgent_cleanValue (PyStr post) \<and>
      uberAgent_cleanValue (PyStr (pre @ replicate n bs @ CHR ''?'' # post)) =
        uberAgent_cleanValue (PyStr pre) @
        (if even n then replicate (min n 2) bs @ ''_'' else replicate n bs @ ''?'') @
        uberAgent_cleanValue (PyStr post)) \<and>
   (CHR ''*'' \<in> set v \<longrightarrow>
      QRadar_generateMapItemNode key (Scalar (PyStr v)) =
        Inr (QRadar_cleanKey (Some key) @ '' ilike '' @ [sq] @
             concat (map (\<lambda>c. if c = CHR ''*'' then ''%''
                              else if c = sq then [bs, sq] else [c]) v) @ [sq])) \<and>
   (CHR ''*'' \<notin> set v \<longrightarrow>
      QRadar_generateMapItemNode key (Scalar (PyStr v)) =
        Inr (QRadar_cleanKey (Some key) @ ''='' @ [sq] @
             concat (map (\<lambda>c. if c = sq then [bs, sq] else [c]) v) @ [sq]))"
proof (intro conjI impI)
  assume pre: "pre = [] \<or> last pre \<noteq> bs"
  show "uberAgent_cleanValue (PyStr (pre @ replicate n bs @ CHR ''*'' # post)) =
        uberAgent_cleanValue (PyStr pre) @
        (if even n then replicate (min n 2) bs @ ''%'' else replicate n bs @ ''*'') @
        uberAgent_cleanValue (PyStr post)"
    by (rule cleanValue_glyph [OF pre]) simp
  show "uberAgent_cleanValue (PyStr (pre @ replicate n bs @ CHR ''?'' # post)) =
        uberAgent_cleanValue (PyStr pre) @
        (if even n then replicate (min n 2) bs @ ''_'' else replicate n bs @ ''?'') @
        uberAgent_cleanValue (PyStr post)"
    by (rule cleanValue_glyph [OF pre]) simp
next
  assume "CHR ''*'' \<in> set v"
  then show "QRadar_generateMapItemNode key (Scalar (PyStr v)) =
        Inr (QRadar_cleanKey (Some key) @ '' ilike '' @ [sq] @
             concat (map (\<lambda>c. if c = CHR ''*'' then ''%''
                              else if c = sq then [bs, sq] else [c]) v) @ [sq])"
    by (simp add: QRadar_generateValueNode_def QRadar_star_text)
next
  assume "CHR ''*'' \<notin> set v"
  then show "QRadar_generateMapItemNode key (Scalar (PyStr v)) =
        Inr (QRadar_cleanKey (Some key) @ ''='' @ [sq] @
             concat (map (\<lambda>c. if c = sq then [bs, sq] else [c]) v) @ [sq])"
    by (simp add: QRadar_generateValueNode_def QRadar_plain_text)
qed

theorem wildcard_translation_witness:
  "last ''a'' \<noteq> bs \<and>
   uberAgent_cleanValue (PyStr (''a'' @ replicate 2 bs @ CHR ''*'' # ''b'')) =
     ''a'' @ [bs, bs] @ ''%'' @ ''b'' \<and>
   uberAgent_cleanValue (PyStr (''a'' @ replicate 1 bs @ CHR ''?'' # ''b'')) =
     ''a'' @ [bs] @ ''?'' @ ''b'' \<and>
   CHR ''*'' \<in> set ''a*b'' \<and>
   QRadar_generateMapItemNode ''f'' (Scalar (PyStr ''a*b'')) =
     Inr (''f ilike '' @ [sq] @ ''a%b'' @ [sq]) \<and>
   CHR ''*'' \<notin> set ''a?b'' \<and>
   QRadar_generateMapItemNode ''f'' (Scalar (PyStr ''a?b'')) =
     Inr (''f='' @ [sq] @ ''a?b'' @ [sq])"
proof -
  have l: "last ''a'' \<noteq> bs" by simp
  then have h: "''a'' = [] \<or> last ''a'' \<noteq> bs" by blast
  have c: "uberAgent_cleanValue (PyStr ''a'') = ''a''" "uberAgent_cleanValue (PyStr ''b'') = ''b''"
    by code_simp+
  have k: "QRadar_cleanKey (Some ''f'') = ''f''" by (simp add: QRadar_cleanKey_def)
  have s1: "CHR ''*'' \<in> set ''a*b''" and s2: "CHR ''*'' \<notin> set ''a?b''" by simp_all
  have 1: "uberAgent_cleanValue (PyStr (''a'' @ replicate 2 bs @ CHR ''*'' # ''b'')) =
     ''a'' @ [bs, bs] @ ''%'' @ ''b''"
    using wildcard_translation [where pre = "''a''" and n = 2 and post = "''b''",
      THEN conjunct1, THEN mp, OF h, THEN conjunct1, unfolded c]
    by (simp add: numeral_2_eq_2 del: uberAgent_cleanValue.simps)
  have 2: "uberAgent_cleanValue (PyStr (''a'' @ replicate 1 bs @ CHR ''?'' # ''b'')) =
     ''a'' @ [bs] @ ''?'' @ ''b''"
    using wildcard_translation [where pre = "''a''" and n = 1 and post = "''b''",
      THEN conjunct1, THEN mp, OF h, THEN conjunct2, unfolded c]
    by (simp del: uberAgent_cleanValue.simps)
  have 3: "QRadar_generateMapItemNode ''f'' (Scalar (PyStr ''a*b'')) =
     Inr (''f ilike '' @ [sq] @ ''a%b'' @ [sq])"
    using wildcard_translation [where v = "''a*b''" and key = "''f''",
      THEN conjunct2, THEN conjunct1, THEN mp, OF s1]
    by (simp add: k)
  have 4: "QRadar_generateMapItemNode ''f'' (Scalar (PyStr ''a?b'')) =
     Inr (''f='' @ [sq] @ ''a?b'' @ [sq])"
    using wildcard_translation [where v = "''a?b''" and key = "''f''",
      THEN conjunct2, THEN conjunct2, THEN mp, OF s2]
    by (simp add: k)
  show ?thesis by (intro conjI) (fact l 1 2 s1 3 s2 4)+
qed

theorem QRadar_translates_escaped_star:
  "QRadar_generateMapItemNode ''f'' (Scalar (PyStr (''a'' @ [bs] @ ''*b''))) =
     Inr (''f ilike '' @ [sq] @ ''a'' @ [bs] @ ''%b'' @ [sq]) \<and>
   QRadar_generateMapItemNode ''f'' (Scalar (PyStr ''a?b'')) =
     Inr (''f='' @ [sq] @ ''a?b'' @ [sq]) \<and>
   uberAgent_cleanValue (PyStr (''a'' @ [bs] @ ''*b'')) = ''a'' @ [bs] @ ''*b'' \<and>
   uberAgent_cleanValue (PyStr ''a?b'') = ''a_b''"
  by code_simp

end
